theory Spec2Isabelle
  imports Main
begin

section \<open>Storage, objects and element types\<close>

text \<open>
  The container of \<^verbatim>\<open>vector.h\<close> is generic in its element type \<^verbatim>\<open>T\<close> and works on raw
  storage. The embedding keeps both explicit.

  \<^item> A pointer \<^verbatim>\<open>T*\<close> is a storage block (\<open>None\<close> for the null pointer) and a signed offset
    counted in elements, so \<^verbatim>\<open>p + n\<close> and \<^verbatim>\<open>p - 1\<close> are arithmetic on the offset.
  \<^item> The store maps every pointer that lies inside an allocated block to its slot, which is
    raw storage or holds a live object. Reading or destroying anything else is undefined
    behaviour, which the model reports as an error of its own.
  \<^item> The element type is a record of its operations. Each of them may throw, and each may
    read and change static state of the type (\<open>'e\<close>: counters, flags), as the probe types of
    \<^verbatim>\<open>main.cpp\<close> do. A move returns the new value and the state the source is left in.
  \<^item> Every construction, assignment and destruction of a \<^verbatim>\<open>T\<close> is appended to a log, the
    counterpart of the counters of the probe types.
  \<^item> \<^verbatim>\<open>size_t\<close> has 64 bits. The byte count \<^verbatim>\<open>n * sizeof(T)\<close> that \<^verbatim>\<open>Allocate\<close> passes to
    \<^verbatim>\<open>operator new\<close> wraps modulo \<open>2 ^ 64\<close>, and the block obtained has room for as many
    elements as that byte count holds, whatever \<^verbatim>\<open>capacity_\<close> says. Sizes and capacities
    themselves are natural numbers, and \<^verbatim>\<open>size_ * 2\<close> is taken not to wrap: a full vector
    of \<open>2 ^ 63\<close> elements does not exist.
  \<^item> \<^verbatim>\<open>assert\<close> is enabled: a failed assertion ends the run with \<open>AssertionFailed\<close>.
\<close>

type_synonym addr = nat

datatype ptr = Ptr (base: "addr option") (off: int)

definition nullptr :: ptr where
  "nullptr = Ptr None 0"

definition ptr_add :: "ptr \<Rightarrow> int \<Rightarrow> ptr" where
  "ptr_add p n = Ptr (base p) (off p + n)"

text \<open>Pointers are compared inside one block; \<^verbatim>\<open>std::distance\<close> is the difference of offsets.\<close>

definition ptr_le :: "ptr \<Rightarrow> ptr \<Rightarrow> bool" where
  "ptr_le p q = (base p = base q \<and> off p \<le> off q)"

definition ptr_less :: "ptr \<Rightarrow> ptr \<Rightarrow> bool" where
  "ptr_less p q = (base p = base q \<and> off p < off q)"

definition distance :: "ptr \<Rightarrow> ptr \<Rightarrow> nat" where
  "distance p q = nat (off q - off p)"

datatype 'a slot = Raw | Live 'a

datatype exn = bad_alloc | runtime_error string

datatype error = Thrown exn | AssertionFailed | UndefinedBehaviour

datatype event =
    ValueConstruct ptr
  | Construct ptr
  | CopyConstruct ptr ptr
  | MoveConstruct ptr ptr
  | CopyAssign ptr ptr
  | MoveAssign ptr ptr
  | Destroy ptr

record ('a, 'c, 'e) elem_type =
  nothrow_move_constructible :: bool
  copy_constructible :: bool
  value_ctor :: "'e \<Rightarrow> 'e \<times> (exn + 'a)"
  args_ctor :: "'c \<Rightarrow> 'e \<Rightarrow> 'e \<times> (exn + 'a)"
  copy_ctor :: "'a \<Rightarrow> 'e \<Rightarrow> 'e \<times> (exn + 'a)"
  move_ctor :: "'a \<Rightarrow> 'e \<Rightarrow> 'e \<times> (exn + 'a \<times> 'a)"
  copy_assign :: "'a \<Rightarrow> 'a \<Rightarrow> 'e \<Rightarrow> 'e \<times> (exn + 'a)"
  move_assign :: "'a \<Rightarrow> 'a \<Rightarrow> 'e \<Rightarrow> 'e \<times> (exn + 'a \<times> 'a)"
  dtor :: "'a \<Rightarrow> 'e \<Rightarrow> 'e"
  sizeof :: nat

text \<open>The private members of \<^verbatim>\<open>RawMemory<T>\<close> and \<^verbatim>\<open>Vector<T>\<close>.\<close>

record rawmem =
  buffer :: ptr
  capacity :: nat

record vector =
  data :: rawmem
  size_field :: nat

text \<open>
  The program state: the store, the next unused block, the largest request the platform
  allocator grants, the \<^verbatim>\<open>Vector\<close> objects by address, the static state of the element type
  and the log.
\<close>

record ('a, 'e) state =
  heap :: "ptr \<Rightarrow> 'a slot option"
  next_addr :: addr
  alloc_limit :: nat
  vectors :: "nat \<Rightarrow> vector"
  env :: 'e
  trace :: "event list"

type_synonym ('a, 'e, 'r) run = "('a, 'e) state \<Rightarrow> (error + 'r) \<times> ('a, 'e) state"

definition seq :: "('a, 'e, 'r) run \<Rightarrow> ('r \<Rightarrow> ('a, 'e, 'q) run) \<Rightarrow> ('a, 'e, 'q) run" where
  "seq m f s = (case m s of (Inl e, s1) \<Rightarrow> (Inl e, s1) | (Inr r, s1) \<Rightarrow> f r s1)"

subsection \<open>Constructing, assigning and destroying one object\<close>

text \<open>The initialiser of a new object: \<^verbatim>\<open>T()\<close>, \<^verbatim>\<open>T(args...)\<close>, \<^verbatim>\<open>T(const T&)\<close>, \<^verbatim>\<open>T(T&&)\<close>.\<close>

datatype 'c init = ValueInit | Args 'c | Lvalue ptr | Rvalue ptr

definition place :: "ptr \<Rightarrow> 'a \<Rightarrow> event \<Rightarrow> ('a, 'e, unit) run" where
  "place p x ev s =
     (case heap s p of
        None \<Rightarrow> (Inl UndefinedBehaviour, s)
      | Some old \<Rightarrow> (Inr (), s\<lparr>heap := (heap s)(p \<mapsto> Live x), trace := trace s @ [ev]\<rparr>))"

fun construct :: "('a, 'c, 'e) elem_type \<Rightarrow> ptr \<Rightarrow> 'c init \<Rightarrow> ('a, 'e, unit) run" where
  "construct T p ValueInit s =
     (case value_ctor T (env s) of
        (e1, Inl ex) \<Rightarrow> (Inl (Thrown ex), s\<lparr>env := e1\<rparr>)
      | (e1, Inr x) \<Rightarrow> place p x (ValueConstruct p) (s\<lparr>env := e1\<rparr>))"
| "construct T p (Args c) s =
     (case args_ctor T c (env s) of
        (e1, Inl ex) \<Rightarrow> (Inl (Thrown ex), s\<lparr>env := e1\<rparr>)
      | (e1, Inr x) \<Rightarrow> place p x (Construct p) (s\<lparr>env := e1\<rparr>))"
| "construct T p (Lvalue q) s =
     (case heap s q of
        Some (Live x) \<Rightarrow>
          (case copy_ctor T x (env s) of
             (e1, Inl ex) \<Rightarrow> (Inl (Thrown ex), s\<lparr>env := e1\<rparr>)
           | (e1, Inr y) \<Rightarrow> place p y (CopyConstruct p q) (s\<lparr>env := e1\<rparr>))
      | _ \<Rightarrow> (Inl UndefinedBehaviour, s))"
| "construct T p (Rvalue q) s =
     (case heap s q of
        Some (Live x) \<Rightarrow>
          (case move_ctor T x (env s) of
             (e1, Inl ex) \<Rightarrow> (Inl (Thrown ex), s\<lparr>env := e1\<rparr>)
           | (e1, Inr (y, x')) \<Rightarrow>
               place p y (MoveConstruct p q) (s\<lparr>env := e1, heap := (heap s)(q \<mapsto> Live x')\<rparr>))
      | _ \<Rightarrow> (Inl UndefinedBehaviour, s))"

datatype how = Copying | Moving

fun assign :: "('a, 'c, 'e) elem_type \<Rightarrow> how \<Rightarrow> ptr \<Rightarrow> ptr \<Rightarrow> ('a, 'e, unit) run" where
  "assign T Copying dst src s =
     (case (heap s dst, heap s src) of
        (Some (Live d), Some (Live x)) \<Rightarrow>
          (case copy_assign T d x (env s) of
             (e1, Inl ex) \<Rightarrow> (Inl (Thrown ex), s\<lparr>env := e1\<rparr>)
           | (e1, Inr y) \<Rightarrow>
               (Inr (), s\<lparr>env := e1, heap := (heap s)(dst \<mapsto> Live y),
                          trace := trace s @ [CopyAssign dst src]\<rparr>))
      | _ \<Rightarrow> (Inl UndefinedBehaviour, s))"
| "assign T Moving dst src s =
     (case (heap s dst, heap s src) of
        (Some (Live d), Some (Live x)) \<Rightarrow>
          (case move_assign T d x (env s) of
             (e1, Inl ex) \<Rightarrow> (Inl (Thrown ex), s\<lparr>env := e1\<rparr>)
           | (e1, Inr (y, x')) \<Rightarrow>
               (Inr (), s\<lparr>env := e1, heap := (heap s)(src \<mapsto> Live x', dst \<mapsto> Live y),
                          trace := trace s @ [MoveAssign dst src]\<rparr>))
      | _ \<Rightarrow> (Inl UndefinedBehaviour, s))"

definition destroy_at :: "('a, 'c, 'e) elem_type \<Rightarrow> ptr \<Rightarrow> ('a, 'e, unit) run" where
  "destroy_at T p s =
     (case heap s p of
        Some (Live x) \<Rightarrow>
          (Inr (), s\<lparr>env := dtor T x (env s), heap := (heap s)(p \<mapsto> Raw),
                     trace := trace s @ [Destroy p]\<rparr>)
      | _ \<Rightarrow> (Inl UndefinedBehaviour, s))"

subsection \<open>The algorithms of the standard library that the container calls\<close>

fun destroy_n :: "('a, 'c, 'e) elem_type \<Rightarrow> ptr \<Rightarrow> nat \<Rightarrow> ('a, 'e, unit) run" where
  "destroy_n T first 0 s = (Inr (), s)"
| "destroy_n T first (Suc n) s =
     seq (destroy_at T first) (\<lambda>u. destroy_n T (ptr_add first 1) n) s"

text \<open>
  \<^verbatim>\<open>catch (...) { std::destroy(result, cur); throw; }\<close>: only an exception is caught; the
  objects built so far are destroyed and the same exception goes on.
\<close>

definition catch_all :: "error \<Rightarrow> ('a, 'e, unit) run \<Rightarrow> ('a, 'e, unit) run" where
  "catch_all e handler s =
     (case e of
        Thrown ex \<Rightarrow>
          (case handler s of (Inl e', s1) \<Rightarrow> (Inl e', s1) | (Inr u, s1) \<Rightarrow> (Inl (Thrown ex), s1))
      | _ \<Rightarrow> (Inl e, s))"

text \<open>
  The loop shared by \<^verbatim>\<open>std::uninitialized_copy_n\<close>, \<^verbatim>\<open>std::uninitialized_move_n\<close> and
  \<^verbatim>\<open>std::uninitialized_value_construct_n\<close>: element \<open>i\<close> of the result is constructed
  from the initialiser \<open>mk i\<close>; \<open>i\<close> elements are already built and \<open>n\<close> are left.
\<close>

fun uninitialized_loop ::
  "('a, 'c, 'e) elem_type \<Rightarrow> (nat \<Rightarrow> 'c init) \<Rightarrow> ptr \<Rightarrow> nat \<Rightarrow> nat \<Rightarrow> ('a, 'e, unit) run" where
  "uninitialized_loop T mk result i 0 s = (Inr (), s)"
| "uninitialized_loop T mk result i (Suc n) s =
     (case construct T (ptr_add result (int i)) (mk i) s of
        (Inl e, s1) \<Rightarrow> catch_all e (destroy_n T result i) s1
      | (Inr u, s1) \<Rightarrow> uninitialized_loop T mk result (Suc i) n s1)"

definition uninitialized_copy_n ::
  "('a, 'c, 'e) elem_type \<Rightarrow> ptr \<Rightarrow> nat \<Rightarrow> ptr \<Rightarrow> ('a, 'e, unit) run" where
  "uninitialized_copy_n T first n result =
     uninitialized_loop T (\<lambda>i. Lvalue (ptr_add first (int i))) result 0 n"

definition uninitialized_move_n ::
  "('a, 'c, 'e) elem_type \<Rightarrow> ptr \<Rightarrow> nat \<Rightarrow> ptr \<Rightarrow> ('a, 'e, unit) run" where
  "uninitialized_move_n T first n result =
     uninitialized_loop T (\<lambda>i. Rvalue (ptr_add first (int i))) result 0 n"

definition uninitialized_value_construct_n ::
  "('a, 'c, 'e) elem_type \<Rightarrow> ptr \<Rightarrow> nat \<Rightarrow> ('a, 'e, unit) run" where
  "uninitialized_value_construct_n T first n =
     uninitialized_loop T (\<lambda>i. ValueInit) first 0 n"

text \<open>
  \<^verbatim>\<open>std::move\<close>, \<^verbatim>\<open>std::copy\<close> and \<^verbatim>\<open>std::move_backward\<close> on ranges assign element by element,
  the first two from the front, the last from the back. A range is given by its first
  element and its length (\<^verbatim>\<open>last - first\<close>).
\<close>

fun assign_each :: "('a, 'c, 'e) elem_type \<Rightarrow> how \<Rightarrow> (ptr \<times> ptr) list \<Rightarrow> ('a, 'e, unit) run" where
  "assign_each T k [] s = (Inr (), s)"
| "assign_each T k (ds # ps) s =
     seq (assign T k (fst ds) (snd ds)) (\<lambda>u. assign_each T k ps) s"

definition std_move :: "('a, 'c, 'e) elem_type \<Rightarrow> ptr \<Rightarrow> nat \<Rightarrow> ptr \<Rightarrow> ('a, 'e, unit) run" where
  "std_move T first n d_first =
     assign_each T Moving (map (\<lambda>i. (ptr_add d_first (int i), ptr_add first (int i))) [0..<n])"

definition std_copy :: "('a, 'c, 'e) elem_type \<Rightarrow> ptr \<Rightarrow> nat \<Rightarrow> ptr \<Rightarrow> ('a, 'e, unit) run" where
  "std_copy T first n d_first =
     assign_each T Copying (map (\<lambda>i. (ptr_add d_first (int i), ptr_add first (int i))) [0..<n])"

definition std_move_backward ::
  "('a, 'c, 'e) elem_type \<Rightarrow> ptr \<Rightarrow> nat \<Rightarrow> ptr \<Rightarrow> ('a, 'e, unit) run" where
  "std_move_backward T first n d_last =
     assign_each T Moving
       (map (\<lambda>i. (ptr_add d_last (- 1 - int i), ptr_add first (int n - 1 - int i))) [0..<n])"

section \<open>RawMemory\<close>

text \<open>
  \<^verbatim>\<open>operator new(n * sizeof(T))\<close>: the product is computed in \<^verbatim>\<open>size_t\<close>. The request fails
  with \<^verbatim>\<open>bad_alloc\<close> when it exceeds the bytes the allocator has (\<open>alloc_limit\<close>); otherwise a
  new block is handed out, and the slots of it are those that fit into the bytes requested.
\<close>

definition block_bytes :: "('a, 'c, 'e) elem_type \<Rightarrow> nat \<Rightarrow> nat" where
  "block_bytes T n = nat ((int n * int (sizeof T)) mod 18446744073709551616)"

definition block_slots :: "('a, 'c, 'e) elem_type \<Rightarrow> nat \<Rightarrow> nat" where
  "block_slots T n = block_bytes T n div sizeof T"

definition Allocate :: "('a, 'c, 'e) elem_type \<Rightarrow> nat \<Rightarrow> ('a, 'e, ptr) run" where
  "Allocate T n s =
     (if n \<noteq> 0 then
        (if alloc_limit s < block_bytes T n then (Inl (Thrown bad_alloc), s)
         else (Inr (Ptr (Some (next_addr s)) 0),
               s\<lparr>heap := (\<lambda>p. if base p = Some (next_addr s) \<and> 0 \<le> off p \<and> off p < int (block_slots T n)
                               then Some Raw else heap s p),
                 next_addr := Suc (next_addr s)\<rparr>))
      else (Inr nullptr, s))"

definition Deallocate :: "ptr \<Rightarrow> ('a, 'e) state \<Rightarrow> ('a, 'e) state" where
  "Deallocate buf s =
     (if buf \<noteq> nullptr then s\<lparr>heap := (\<lambda>p. if base p = base buf then None else heap s p)\<rparr>
      else s)"

definition RawMemory_default :: rawmem where
  "RawMemory_default = \<lparr>buffer = nullptr, capacity = 0\<rparr>"

definition RawMemory_ctor :: "('a, 'c, 'e) elem_type \<Rightarrow> nat \<Rightarrow> ('a, 'e, rawmem) run" where
  "RawMemory_ctor T n s =
     (case Allocate T n s of
        (Inl e, s1) \<Rightarrow> (Inl e, s1)
      | (Inr buf, s1) \<Rightarrow> (Inr \<lparr>buffer = buf, capacity = n\<rparr>, s1))"

text \<open>The move constructor returns the new object and the donor, which is left empty.\<close>

definition RawMemory_move_ctor :: "rawmem \<Rightarrow> rawmem \<times> rawmem" where
  "RawMemory_move_ctor other =
     (\<lparr>buffer = buffer other, capacity = capacity other\<rparr>, other\<lparr>buffer := nullptr, capacity := 0\<rparr>)"

definition RawMemory_dtor :: "rawmem \<Rightarrow> ('a, 'e) state \<Rightarrow> ('a, 'e) state" where
  "RawMemory_dtor m s = Deallocate (buffer m) s"

definition RawMemory_Swap :: "rawmem \<Rightarrow> rawmem \<Rightarrow> rawmem \<times> rawmem" where
  "RawMemory_Swap m other =
     (m\<lparr>buffer := buffer other, capacity := capacity other\<rparr>,
      other\<lparr>buffer := buffer m, capacity := capacity m\<rparr>)"

definition GetAddress :: "rawmem \<Rightarrow> ptr" where
  "GetAddress m = buffer m"

definition RawMemory_plus :: "rawmem \<Rightarrow> nat \<Rightarrow> error + ptr" where
  "RawMemory_plus m offset =
     (if offset \<le> capacity m then Inr (ptr_add (buffer m) (int offset)) else Inl AssertionFailed)"

definition RawMemory_index :: "rawmem \<Rightarrow> nat \<Rightarrow> error + ptr" where
  "RawMemory_index m index =
     (if index < capacity m then Inr (ptr_add (buffer m) (int index)) else Inl AssertionFailed)"

text \<open>
  The scope of the local \<^verbatim>\<open>RawMemory<T> new_data(n)\<close>: the body returns the final value of
  the local (it is changed by \<^verbatim>\<open>Swap\<close> only, in the last statement), and its destructor
  runs when the scope is left, by a normal exit or by an exception.
\<close>

definition with_new_data ::
  "('a, 'c, 'e) elem_type \<Rightarrow> nat \<Rightarrow> (rawmem \<Rightarrow> ('a, 'e, rawmem) run) \<Rightarrow> ('a, 'e, unit) run" where
  "with_new_data T n body s =
     (case RawMemory_ctor T n s of
        (Inl e, s1) \<Rightarrow> (Inl e, s1)
      | (Inr new_data, s1) \<Rightarrow>
          (case body new_data s1 of
             (Inl e, s2) \<Rightarrow> (Inl e, RawMemory_dtor new_data s2)
           | (Inr new_data', s2) \<Rightarrow> (Inr (), RawMemory_dtor new_data' s2)))"

section \<open>Vector\<close>

definition Vector_default :: vector where
  "Vector_default = \<lparr>data = RawMemory_default, size_field = 0\<rparr>"

definition set_data :: "nat \<Rightarrow> rawmem \<Rightarrow> ('a, 'e) state \<Rightarrow> ('a, 'e) state" where
  "set_data this d s = s\<lparr>vectors := (vectors s)(this := (vectors s this)\<lparr>data := d\<rparr>)\<rparr>"

definition set_size :: "nat \<Rightarrow> nat \<Rightarrow> ('a, 'e) state \<Rightarrow> ('a, 'e) state" where
  "set_size this n s = s\<lparr>vectors := (vectors s)(this := (vectors s this)\<lparr>size_field := n\<rparr>)\<rparr>"

definition Size :: "nat \<Rightarrow> ('a, 'e) state \<Rightarrow> nat" where
  "Size this s = size_field (vectors s this)"

definition Capacity :: "nat \<Rightarrow> ('a, 'e) state \<Rightarrow> nat" where
  "Capacity this s = capacity (data (vectors s this))"

definition Vector_begin :: "nat \<Rightarrow> ('a, 'e) state \<Rightarrow> ptr" where
  "Vector_begin this s = GetAddress (data (vectors s this))"

definition Vector_end :: "nat \<Rightarrow> ('a, 'e) state \<Rightarrow> ptr" where
  "Vector_end this s = ptr_add (GetAddress (data (vectors s this))) (int (size_field (vectors s this)))"

definition Vector_cbegin :: "nat \<Rightarrow> ('a, 'e) state \<Rightarrow> ptr" where
  "Vector_cbegin this s = GetAddress (data (vectors s this))"

definition Vector_index :: "nat \<Rightarrow> nat \<Rightarrow> ('a, 'e) state \<Rightarrow> error + ptr" where
  "Vector_index this index s =
     (if index < size_field (vectors s this) then RawMemory_index (data (vectors s this)) index
      else Inl AssertionFailed)"

text \<open>
  A constructor initialises the members of \<open>this\<close> and then runs its body; when the body
  throws, the member \<^verbatim>\<open>data_\<close> is destroyed again.
\<close>

definition Vector_sized_ctor :: "('a, 'c, 'e) elem_type \<Rightarrow> nat \<Rightarrow> nat \<Rightarrow> ('a, 'e, unit) run" where
  "Vector_sized_ctor T this n s =
     (case RawMemory_ctor T n s of
        (Inl e, s1) \<Rightarrow> (Inl e, s1)
      | (Inr d, s1) \<Rightarrow>
          (let s2 = s1\<lparr>vectors := (vectors s1)(this := \<lparr>data = d, size_field = n\<rparr>)\<rparr> in
           case uninitialized_value_construct_n T (GetAddress (data (vectors s2 this))) n s2 of
             (Inl e, s3) \<Rightarrow> (Inl e, RawMemory_dtor d s3)
           | (Inr u, s3) \<Rightarrow> (Inr (), s3)))"

definition Vector_copy_ctor :: "('a, 'c, 'e) elem_type \<Rightarrow> nat \<Rightarrow> nat \<Rightarrow> ('a, 'e, unit) run" where
  "Vector_copy_ctor T this other s =
     (case RawMemory_ctor T (size_field (vectors s other)) s of
        (Inl e, s1) \<Rightarrow> (Inl e, s1)
      | (Inr d, s1) \<Rightarrow>
          (let s2 = s1\<lparr>vectors := (vectors s1)(this := \<lparr>data = d, size_field = size_field (vectors s1 other)\<rparr>)\<rparr> in
           case uninitialized_copy_n T (GetAddress (data (vectors s2 other)))
                  (size_field (vectors s2 this)) (GetAddress (data (vectors s2 this))) s2 of
             (Inl e, s3) \<Rightarrow> (Inl e, RawMemory_dtor d s3)
           | (Inr u, s3) \<Rightarrow> (Inr (), s3)))"

definition Vector_move_ctor :: "nat \<Rightarrow> nat \<Rightarrow> ('a, 'e) state \<Rightarrow> ('a, 'e) state" where
  "Vector_move_ctor this other s =
     (let (d, donor) = RawMemory_move_ctor (data (vectors s other));
          s1 = set_data other donor s;
          s2 = s1\<lparr>vectors := (vectors s1)(this := \<lparr>data = d, size_field = size_field (vectors s1 other)\<rparr>)\<rparr>
      in set_size other 0 s2)"

definition Swap :: "nat \<Rightarrow> nat \<Rightarrow> ('a, 'e) state \<Rightarrow> ('a, 'e) state" where
  "Swap this other s =
     (let (d, od) = RawMemory_Swap (data (vectors s this)) (data (vectors s other));
          s1 = set_data other od (set_data this d s);
          n = size_field (vectors s1 this)
      in set_size other n (set_size this (size_field (vectors s1 other)) s1))"

definition Vector_move_assign :: "nat \<Rightarrow> nat \<Rightarrow> ('a, 'e) state \<Rightarrow> ('a, 'e) state" where
  "Vector_move_assign this rhs s = (if this \<noteq> rhs then Swap this rhs s else s)"

definition Vector_dtor :: "('a, 'c, 'e) elem_type \<Rightarrow> nat \<Rightarrow> ('a, 'e, unit) run" where
  "Vector_dtor T this s =
     seq (destroy_n T (GetAddress (data (vectors s this))) (size_field (vectors s this)))
       (\<lambda>u s1. (Inr (), RawMemory_dtor (data (vectors s1 this)) s1)) s"

definition Reserve :: "('a, 'c, 'e) elem_type \<Rightarrow> nat \<Rightarrow> nat \<Rightarrow> ('a, 'e, unit) run" where
  "Reserve T this new_capacity s =
     (if new_capacity \<le> capacity (data (vectors s this)) then (Inr (), s)
      else
        with_new_data T new_capacity (\<lambda>new_data s1.
          seq (if nothrow_move_constructible T \<or> \<not> copy_constructible T
               then uninitialized_move_n T (GetAddress (data (vectors s1 this)))
                      (size_field (vectors s1 this)) (GetAddress new_data)
               else uninitialized_copy_n T (GetAddress (data (vectors s1 this)))
                      (size_field (vectors s1 this)) (GetAddress new_data))
          (\<lambda>u s2.
          seq (destroy_n T (GetAddress (data (vectors s2 this))) (size_field (vectors s2 this)))
          (\<lambda>u s3.
            (let (d, nd) = RawMemory_Swap (data (vectors s3 this)) new_data
             in (Inr nd, set_data this d s3))) s2) s1) s)"

definition Resize :: "('a, 'c, 'e) elem_type \<Rightarrow> nat \<Rightarrow> nat \<Rightarrow> ('a, 'e, unit) run" where
  "Resize T this new_size s =
     seq (if new_size > size_field (vectors s this) then
            seq (Reserve T this new_size)
              (\<lambda>u s1. uninitialized_value_construct_n T
                  (ptr_add (GetAddress (data (vectors s1 this))) (int (size_field (vectors s1 this))))
                  (new_size - size_field (vectors s1 this)) s1)
          else
            destroy_n T (ptr_add (GetAddress (data (vectors s this))) (int new_size))
              (size_field (vectors s this) - new_size))
       (\<lambda>u s1. (Inr (), set_size this new_size s1)) s"

text \<open>
  The three insertions repeat the same growth block. The new element is constructed in the
  new storage first, then the old elements are relocated around it.
\<close>

definition EmplaceBack :: "('a, 'c, 'e) elem_type \<Rightarrow> nat \<Rightarrow> 'c init \<Rightarrow> ('a, 'e, ptr) run" where
  "EmplaceBack T this args s =
     seq (if capacity (data (vectors s this)) = size_field (vectors s this) then
            with_new_data T (if size_field (vectors s this) = 0 then 1 else size_field (vectors s this) * 2)
              (\<lambda>new_data s1.
                seq (construct T (ptr_add (GetAddress new_data) (int (size_field (vectors s1 this)))) args)
                (\<lambda>u s2.
                seq (if nothrow_move_constructible T \<or> \<not> copy_constructible T
                     then uninitialized_move_n T (GetAddress (data (vectors s2 this)))
                            (size_field (vectors s2 this)) (GetAddress new_data)
                     else uninitialized_copy_n T (GetAddress (data (vectors s2 this)))
                            (size_field (vectors s2 this)) (GetAddress new_data))
                (\<lambda>u s3.
                seq (destroy_n T (GetAddress (data (vectors s3 this))) (size_field (vectors s3 this)))
                (\<lambda>u s4.
                  (let (d, nd) = RawMemory_Swap (data (vectors s4 this)) new_data
                   in (Inr nd, set_data this d s4))) s3) s2) s1)
          else
            construct T (ptr_add (GetAddress (data (vectors s this))) (int (size_field (vectors s this)))) args)
       (\<lambda>u s1.
          (let s2 = set_size this (size_field (vectors s1 this) + 1) s1 in
           case RawMemory_index (data (vectors s2 this)) (size_field (vectors s2 this) - 1) of
             Inl e \<Rightarrow> (Inl e, s2)
           | Inr p \<Rightarrow> (Inr p, s2))) s"

definition PushBack :: "('a, 'c, 'e) elem_type \<Rightarrow> nat \<Rightarrow> 'c init \<Rightarrow> ('a, 'e, unit) run" where
  "PushBack T this val s =
     seq (if capacity (data (vectors s this)) = size_field (vectors s this) then
            with_new_data T (if size_field (vectors s this) = 0 then 1 else size_field (vectors s this) * 2)
              (\<lambda>new_data s1.
                seq (construct T (ptr_add (GetAddress new_data) (int (size_field (vectors s1 this)))) val)
                (\<lambda>u s2.
                seq (if nothrow_move_constructible T \<or> \<not> copy_constructible T
                     then uninitialized_move_n T (GetAddress (data (vectors s2 this)))
                            (size_field (vectors s2 this)) (GetAddress new_data)
                     else uninitialized_copy_n T (GetAddress (data (vectors s2 this)))
                            (size_field (vectors s2 this)) (GetAddress new_data))
                (\<lambda>u s3.
                seq (destroy_n T (GetAddress (data (vectors s3 this))) (size_field (vectors s3 this)))
                (\<lambda>u s4.
                  (let (d, nd) = RawMemory_Swap (data (vectors s4 this)) new_data
                   in (Inr nd, set_data this d s4))) s3) s2) s1)
          else
            construct T (ptr_add (GetAddress (data (vectors s this))) (int (size_field (vectors s this)))) val)
       (\<lambda>u s1. (Inr (), set_size this (size_field (vectors s1 this) + 1) s1)) s"

text \<open>
  \<^verbatim>\<open>PopBack\<close> has no assertion. \<^verbatim>\<open>--size_\<close> on a 64-bit \<^verbatim>\<open>size_t\<close> wraps at zero.
\<close>

definition PopBack :: "('a, 'c, 'e) elem_type \<Rightarrow> nat \<Rightarrow> ('a, 'e, unit) run" where
  "PopBack T this s =
     seq (destroy_at T (ptr_add (GetAddress (data (vectors s this))) (int (size_field (vectors s this)) - 1)))
       (\<lambda>u s1. (Inr (), set_size this
            (if size_field (vectors s1 this) = 0 then 2 ^ 64 - 1 else size_field (vectors s1 this) - 1) s1)) s"

text \<open>
  The scope of the local \<^verbatim>\<open>T new_type(args...)\<close> of \<^verbatim>\<open>Emplace\<close>. The local has automatic
  storage, a block of its own with one slot. When its constructor throws there is no object;
  otherwise it is destroyed when the scope is left, by a normal exit or by an exception.
\<close>

definition with_new_type ::
  "('a, 'c, 'e) elem_type \<Rightarrow> 'c init \<Rightarrow> (ptr \<Rightarrow> ('a, 'e, unit) run) \<Rightarrow> ('a, 'e, unit) run" where
  "with_new_type T args body s =
     (let new_type = Ptr (Some (next_addr s)) 0;
          s0 = s\<lparr>heap := (heap s)(new_type \<mapsto> Raw), next_addr := Suc (next_addr s)\<rparr>
      in case construct T new_type args s0 of
           (Inl e, s1) \<Rightarrow> (Inl e, s1\<lparr>heap := (heap s1)(new_type := None)\<rparr>)
         | (Inr u, s1) \<Rightarrow>
             (case body new_type s1 of
                (Inl (Thrown ex), s2) \<Rightarrow>
                  (case destroy_at T new_type s2 of
                     (Inl e, s3) \<Rightarrow> (Inl e, s3)
                   | (Inr u, s3) \<Rightarrow> (Inl (Thrown ex), s3\<lparr>heap := (heap s3)(new_type := None)\<rparr>))
              | (Inl e, s2) \<Rightarrow> (Inl e, s2)
              | (Inr u, s2) \<Rightarrow>
                  (case destroy_at T new_type s2 of
                     (Inl e, s3) \<Rightarrow> (Inl e, s3)
                   | (Inr u, s3) \<Rightarrow> (Inr (), s3\<lparr>heap := (heap s3)(new_type := None)\<rparr>))))"

definition Emplace :: "('a, 'c, 'e) elem_type \<Rightarrow> nat \<Rightarrow> ptr \<Rightarrow> 'c init \<Rightarrow> ('a, 'e, ptr) run" where
  "Emplace T this pos args s =
     (if \<not> (ptr_le (Vector_begin this s) pos \<and> ptr_le pos (Vector_end this s))
      then (Inl AssertionFailed, s)
      else
       (let pos_distance = distance (Vector_cbegin this s) pos in
        seq (if capacity (data (vectors s this)) = size_field (vectors s this) then
               with_new_data T (if size_field (vectors s this) = 0 then 1 else size_field (vectors s this) * 2)
                 (\<lambda>new_data s1.
                   seq (construct T (ptr_add (GetAddress new_data) (int pos_distance)) args)
                   (\<lambda>u s2.
                   seq (if nothrow_move_constructible T \<or> \<not> copy_constructible T
                        then seq (uninitialized_move_n T (GetAddress (data (vectors s2 this)))
                                    pos_distance (GetAddress new_data))
                               (\<lambda>u s3. uninitialized_move_n T
                                    (ptr_add (GetAddress (data (vectors s3 this))) (int pos_distance))
                                    (size_field (vectors s3 this) - pos_distance)
                                    (ptr_add (GetAddress new_data) (int pos_distance + 1)) s3)
                        else seq (uninitialized_copy_n T (GetAddress (data (vectors s2 this)))
                                    pos_distance (GetAddress new_data))
                               (\<lambda>u s3. uninitialized_copy_n T
                                    (ptr_add (GetAddress (data (vectors s3 this))) (int pos_distance))
                                    (size_field (vectors s3 this) - pos_distance)
                                    (ptr_add (GetAddress new_data) (int pos_distance + 1)) s3))
                   (\<lambda>u s4.
                   seq (destroy_n T (GetAddress (data (vectors s4 this))) (size_field (vectors s4 this)))
                   (\<lambda>u s5.
                     (let (d, nd) = RawMemory_Swap (data (vectors s5 this)) new_data;
                          s6 = set_data this d s5
                      in (Inr nd, set_size this (size_field (vectors s6 this) + 1) s6))) s4) s2) s1)
             else
               seq (if pos \<noteq> ptr_add (GetAddress (data (vectors s this))) (int (size_field (vectors s this))) then
                      with_new_type T args (\<lambda>new_type s1.
                        seq (\<lambda>s2. case RawMemory_index (data (vectors s2 this)) (size_field (vectors s2 this) - 1) of
                                    Inl e \<Rightarrow> (Inl e, s2)
                                  | Inr back \<Rightarrow>
                                      construct T (ptr_add (GetAddress (data (vectors s2 this)))
                                                     (int (size_field (vectors s2 this)))) (Rvalue back) s2)
                        (\<lambda>u s3.
                        seq (std_move_backward T
                               (ptr_add (GetAddress (data (vectors s3 this))) (int pos_distance))
                               (size_field (vectors s3 this) - 1 - pos_distance)
                               (ptr_add (GetAddress (data (vectors s3 this))) (int (size_field (vectors s3 this)))))
                        (\<lambda>u s4. assign T Moving
                               (ptr_add (GetAddress (data (vectors s4 this))) (int pos_distance)) new_type s4) s3) s1)
                    else
                      construct T (ptr_add (GetAddress (data (vectors s this))) (int (size_field (vectors s this)))) args)
                 (\<lambda>u s1. (Inr (), set_size this (size_field (vectors s1 this) + 1) s1)))
          (\<lambda>u s1. (Inr (ptr_add (Vector_begin this s1) (int pos_distance)), s1)) s))"

definition Insert :: "('a, 'c, 'e) elem_type \<Rightarrow> nat \<Rightarrow> ptr \<Rightarrow> 'c init \<Rightarrow> ('a, 'e, ptr) run" where
  "Insert T this pos val s = Emplace T this pos val s"

definition Erase :: "('a, 'c, 'e) elem_type \<Rightarrow> nat \<Rightarrow> ptr \<Rightarrow> ('a, 'e, ptr) run" where
  "Erase T this pos s =
     (if \<not> (ptr_le (Vector_begin this s) pos \<and> ptr_less pos (Vector_end this s))
      then (Inl AssertionFailed, s)
      else
       (let pos_distance = distance (Vector_cbegin this s) pos in
        seq (if nothrow_move_constructible T \<or> \<not> copy_constructible T
             then std_move T (ptr_add (GetAddress (data (vectors s this))) (int pos_distance + 1))
                    (size_field (vectors s this) - (pos_distance + 1))
                    (ptr_add (GetAddress (data (vectors s this))) (int pos_distance))
             else std_copy T (ptr_add (GetAddress (data (vectors s this))) (int pos_distance + 1))
                    (size_field (vectors s this) - (pos_distance + 1))
                    (ptr_add (GetAddress (data (vectors s this))) (int pos_distance)))
        (\<lambda>u s1.
        seq (destroy_at T (ptr_add (GetAddress (data (vectors s1 this))) (int (size_field (vectors s1 this)) - 1)))
        (\<lambda>u s2.
          (let s3 = set_size this (size_field (vectors s2 this) - 1) s2
           in (Inr (ptr_add (Vector_begin this s3) (int pos_distance)), s3))) s1) s))"

section \<open>Notions used to state the properties\<close>

text \<open>A slot that holds a live object, and the pointers of a range of \<open>n\<close> slots.\<close>

definition live :: "('a, 'e) state \<Rightarrow> ptr \<Rightarrow> bool" where
  "live s p = (\<exists>x. heap s p = Some (Live x))"

definition span :: "ptr \<Rightarrow> nat \<Rightarrow> ptr set" where
  "span first n = {p. base p = base first \<and> off first \<le> off p \<and> off p < off first + int n}"

text \<open>
  \<open>frame W s s'\<close>: going from \<open>s\<close> to \<open>s'\<close> writes to slots in \<open>W\<close> only, neither acquires
  nor releases storage, and leaves the \<^verbatim>\<open>Vector\<close> objects alone.
\<close>

definition frame :: "ptr set \<Rightarrow> ('a, 'e) state \<Rightarrow> ('a, 'e) state \<Rightarrow> bool" where
  "frame W s s' \<longleftrightarrow>
     (\<forall>p. p \<notin> W \<longrightarrow> heap s' p = heap s p) \<and>
     (\<forall>p. heap s' p = None \<longleftrightarrow> heap s p = None) \<and>
     vectors s' = vectors s \<and> next_addr s' = next_addr s \<and> alloc_limit s' = alloc_limit s"

text \<open>The object a move construction reads and leaves moved-from, and the log entry of a construction.\<close>

fun rvalue_src :: "'c init \<Rightarrow> ptr set" where
  "rvalue_src (Rvalue q) = {q}"
| "rvalue_src i = {}"

fun construct_event :: "ptr \<Rightarrow> 'c init \<Rightarrow> event" where
  "construct_event p ValueInit = ValueConstruct p"
| "construct_event p (Args c) = Construct p"
| "construct_event p (Lvalue q) = CopyConstruct p q"
| "construct_event p (Rvalue q) = MoveConstruct p q"

fun assign_event :: "how \<Rightarrow> ptr \<times> ptr \<Rightarrow> event" where
  "assign_event Copying ds = CopyAssign (fst ds) (snd ds)"
| "assign_event Moving ds = MoveAssign (fst ds) (snd ds)"

definition is_thrown :: "error \<Rightarrow> bool" where
  "is_thrown e = (case e of Thrown ex \<Rightarrow> True | _ \<Rightarrow> False)"

text \<open>
  Copies and moves that keep the value: a copy equals its source, and a move gives the new
  (or assigned) object the value its source had. Properties about element values are stated
  for such element types.
\<close>

definition value_semantics :: "('a, 'c, 'e) elem_type \<Rightarrow> bool" where
  "value_semantics T \<longleftrightarrow>
     (\<forall>x e e' y. copy_ctor T x e = (e', Inr y) \<longrightarrow> y = x) \<and>
     (\<forall>x e e' y x'. move_ctor T x e = (e', Inr (y, x')) \<longrightarrow> y = x) \<and>
     (\<forall>d x e e' y. copy_assign T d x e = (e', Inr y) \<longrightarrow> y = x) \<and>
     (\<forall>d x e e' y x'. move_assign T d x e = (e', Inr (y, x')) \<longrightarrow> y = x)"

text \<open>Every slot of the store lies in a block that was handed out before.\<close>

definition store_ok :: "('a, 'e) state \<Rightarrow> bool" where
  "store_ok s \<longleftrightarrow>
     (\<forall>p. heap s p \<noteq> None \<longrightarrow> (\<exists>a. base p = Some a \<and> a < next_addr s) \<and> 0 \<le> off p)"

text \<open>
  \<open>repr this s xs\<close>: the vector at \<open>this\<close> is well formed and holds the sequence \<open>xs\<close>. Its
  block has \<^verbatim>\<open>capacity_\<close> slots, the first \<^verbatim>\<open>size_\<close> hold the elements and the rest is raw
  storage; the buffer is the start of its block, and null exactly when the capacity is zero.
\<close>

definition slots :: "('a, 'e) state \<Rightarrow> ptr \<Rightarrow> nat \<Rightarrow> 'a slot option list" where
  "slots s first n = map (\<lambda>i. heap s (ptr_add first (int i))) [0..<n]"

definition repr :: "nat \<Rightarrow> ('a, 'e) state \<Rightarrow> 'a list \<Rightarrow> bool" where
  "repr this s xs \<longleftrightarrow>
     size_field (vectors s this) = length xs \<and>
     length xs \<le> capacity (data (vectors s this)) \<and>
     off (buffer (data (vectors s this))) = 0 \<and>
     (buffer (data (vectors s this)) = nullptr) = (capacity (data (vectors s this)) = 0) \<and>
     slots s (buffer (data (vectors s this))) (capacity (data (vectors s this))) =
       map (\<lambda>x. Some (Live x)) xs @ replicate (capacity (data (vectors s this)) - length xs) (Some Raw)"

text \<open>The objects a construction reads.\<close>

fun init_src :: "'c init \<Rightarrow> ptr set" where
  "init_src (Lvalue q) = {q}"
| "init_src (Rvalue q) = {q}"
| "init_src i = {}"

text \<open>A move constructor that never throws, which is what \<^verbatim>\<open>noexcept\<close> promises.\<close>

definition moves_never_throw :: "('a, 'c, 'e) elem_type \<Rightarrow> bool" where
  "moves_never_throw T \<longleftrightarrow> (\<forall>x e. \<exists>e' r. move_ctor T x e = (e', Inr r))"

text \<open>The state after \<^verbatim>\<open>Allocate\<close> has handed out the next block, with \<open>n\<close> raw slots.\<close>

definition fresh_block :: "nat \<Rightarrow> ('a, 'e) state \<Rightarrow> ('a, 'e) state" where
  "fresh_block n s =
     s\<lparr>heap := (\<lambda>p. if base p = Some (next_addr s) \<and> 0 \<le> off p \<and> off p < int n
                     then Some Raw else heap s p),
       next_addr := Suc (next_addr s)\<rparr>"

text \<open>
  A request for \<open>n\<close> elements whose byte count does not wrap; then the block has \<open>n\<close> slots.
\<close>

definition fits :: "('a, 'c, 'e) elem_type \<Rightarrow> nat \<Rightarrow> bool" where
  "fits T n \<longleftrightarrow> 0 < sizeof T \<and> n * sizeof T < 2 ^ 64"

definition new_buffer :: "('a, 'e) state \<Rightarrow> ptr" where
  "new_buffer s = Ptr (Some (next_addr s)) 0"

text \<open>
  The way an existing element is relocated into a new block, as the claim words it: by a
  move when the move constructor is declared non-throwing or there is no copy constructor,
  by a copy otherwise.
\<close>

definition relocation :: "('a, 'c, 'e) elem_type \<Rightarrow> ptr \<Rightarrow> 'c init" where
  "relocation T q = (if nothrow_move_constructible T \<or> \<not> copy_constructible T then Rvalue q else Lvalue q)"

text \<open>
  The steps of the growth block of an insertion at offset \<open>p\<close>, on the pointers they work
  on: the new element is constructed, the elements before and after it are relocated, and
  the old elements are destroyed.
\<close>

definition grow ::
  "('a, 'c, 'e) elem_type \<Rightarrow> ptr \<Rightarrow> nat \<Rightarrow> nat \<Rightarrow> 'c init \<Rightarrow> ptr \<Rightarrow> ('a, 'e, unit) run" where
  "grow T old n p args new =
     seq (construct T (ptr_add new (int p)) args) (\<lambda>u.
     seq (uninitialized_loop T (\<lambda>i. relocation T (ptr_add old (int i))) new 0 p) (\<lambda>u.
     seq (uninitialized_loop T (\<lambda>i. relocation T (ptr_add old (int p + int i)))
            (ptr_add new (int p + 1)) 0 (n - p)) (\<lambda>u.
     destroy_n T old n)))"

text \<open>The steps of \<^verbatim>\<open>Reserve\<close>: all elements are relocated, then the old ones are destroyed.\<close>

definition relocate_all ::
  "('a, 'c, 'e) elem_type \<Rightarrow> ptr \<Rightarrow> nat \<Rightarrow> ptr \<Rightarrow> ('a, 'e, unit) run" where
  "relocate_all T old n new =
     seq (uninitialized_loop T (\<lambda>i. relocation T (ptr_add old (int i))) new 0 n) (\<lambda>u.
     destroy_n T old n)"

text \<open>
  An element type for which a relocation that has begun cannot leave elements moved-from by
  an exception: it relocates by copy, or its move constructor never throws.
\<close>

definition relocation_safe :: "('a, 'c, 'e) elem_type \<Rightarrow> bool" where
  "relocation_safe T \<longleftrightarrow>
     (\<not> nothrow_move_constructible T \<and> copy_constructible T) \<or> moves_never_throw T"

text \<open>
  Copying the elements \<open>xs\<close> one after the other, as \<^verbatim>\<open>std::uninitialized_copy_n\<close> does,
  starting with the static state \<open>e\<close>: the index of the first element whose copy constructor
  throws and the exception it throws, if there is one.
\<close>

fun first_copy_throw :: "('a, 'c, 'e) elem_type \<Rightarrow> 'a list \<Rightarrow> 'e \<Rightarrow> (nat \<times> exn) option" where
  "first_copy_throw T [] e = None"
| "first_copy_throw T (x # xs) e =
     (case copy_ctor T x e of
        (e1, Inl ex) \<Rightarrow> Some (0, ex)
      | (e1, Inr y) \<Rightarrow>
          (case first_copy_throw T xs e1 of
             None \<Rightarrow> None
           | Some (k, ex) \<Rightarrow> Some (Suc k, ex)))"

text \<open>An element type none of whose constructors and assignments ever throws.\<close>

definition nothrow :: "('a, 'c, 'e) elem_type \<Rightarrow> bool" where
  "nothrow T \<longleftrightarrow>
     (\<forall>e. \<exists>e' y. value_ctor T e = (e', Inr y)) \<and>
     (\<forall>c e. \<exists>e' y. args_ctor T c e = (e', Inr y)) \<and>
     (\<forall>x e. \<exists>e' y. copy_ctor T x e = (e', Inr y)) \<and>
     (\<forall>x e. \<exists>e' y. move_ctor T x e = (e', Inr y)) \<and>
     (\<forall>d x e. \<exists>e' y. copy_assign T d x e = (e', Inr y)) \<and>
     (\<forall>d x e. \<exists>e' y. move_assign T d x e = (e', Inr y))"

section \<open>Concrete element types and states\<close>

text \<open>
  \<^verbatim>\<open>int\<close> as element type: nothing throws, a move leaves the source as it was, there is no
  static state, and an \<^verbatim>\<open>int\<close> has four bytes.
\<close>

definition IntT :: "(int, int, unit) elem_type" where
  "IntT = \<lparr>nothrow_move_constructible = True, copy_constructible = True,
     value_ctor = (\<lambda>e. (e, Inr 0)), args_ctor = (\<lambda>c e. (e, Inr c)),
     copy_ctor = (\<lambda>x e. (e, Inr x)), move_ctor = (\<lambda>x e. (e, Inr (x, x))),
     copy_assign = (\<lambda>d x e. (e, Inr x)), move_assign = (\<lambda>d x e. (e, Inr (x, x))),
     dtor = (\<lambda>x e. e), sizeof = 4\<rparr>"

text \<open>
  The state of a program that has default-constructed its vectors and nothing else. The
  allocator has 1000 bytes.
\<close>

definition empty_state :: "(int, unit) state" where
  "empty_state = \<lparr>heap = (\<lambda>p. None), next_addr = 0, alloc_limit = 1000,
     vectors = (\<lambda>v. Vector_default), env = (), trace = []\<rparr>"

text \<open>Vector 0 holds 1, 2 in block 0 and vector 1 holds 3 in block 1; both are full.\<close>

definition two_vectors :: "(int, unit) state" where
  "two_vectors = \<lparr>heap = (\<lambda>p. if p = Ptr (Some 0) 0 then Some (Live 1)
                              else if p = Ptr (Some 0) 1 then Some (Live 2)
                              else if p = Ptr (Some 1) 0 then Some (Live 3) else None),
     next_addr = 2, alloc_limit = 1000,
     vectors = (\<lambda>v. if v = 0 then \<lparr>data = \<lparr>buffer = Ptr (Some 0) 0, capacity = 2\<rparr>, size_field = 2\<rparr>
                     else if v = 1 then \<lparr>data = \<lparr>buffer = Ptr (Some 1) 0, capacity = 1\<rparr>, size_field = 1\<rparr>
                     else Vector_default),
     env = (), trace = []\<rparr>"

text \<open>
  \<^verbatim>\<open>Obj\<close> of \<^verbatim>\<open>main.cpp\<close>. A value is the flag \<^verbatim>\<open>throw_on_copy\<close> and the \<^verbatim>\<open>id\<close> (the name, which
  no claim looks at, is left out). The static state is
  \<^verbatim>\<open>default_construction_throw_countdown\<close>: the default constructor throws when it reaches
  zero. The copy constructor throws when its source is flagged. Copies and moves take over
  the \<^verbatim>\<open>id\<close> only, the flag of the new object is the default \<^verbatim>\<open>false\<close>, and an assignment
  keeps the flag of its target. The move constructor is \<^verbatim>\<open>noexcept\<close>, so relocation moves.
\<close>

definition ObjT :: "(bool \<times> int, int, nat) elem_type" where
  "ObjT = \<lparr>nothrow_move_constructible = True, copy_constructible = True,
     value_ctor = (\<lambda>e. if 0 < e then (if e - 1 = 0 then (e - 1, Inl (runtime_error ''Oops''))
                                      else (e - 1, Inr (False, 0)))
                         else (e, Inr (False, 0))),
     args_ctor = (\<lambda>c e. (e, Inr (False, c))),
     copy_ctor = (\<lambda>x e. (e, if fst x then Inl (runtime_error ''Oops'') else Inr (False, snd x))),
     move_ctor = (\<lambda>x e. (e, Inr ((False, snd x), x))),
     copy_assign = (\<lambda>d x e. (e, Inr (fst d, snd x))),
     move_assign = (\<lambda>d x e. (e, Inr ((fst d, snd x), x))),
     dtor = (\<lambda>x e. e), sizeof = 40\<rparr>"

text \<open>
  \<^verbatim>\<open>WithCopy<MoveNoexcept>\<close> of \<^verbatim>\<open>main.cpp\<close>: an empty class, nothing throws, and the move
  constructor is declared \<^verbatim>\<open>noexcept(MoveNoexcept)\<close>. With \<^verbatim>\<open>MoveNoexcept = false\<close> it is the
  type of the repository whose relocation copies.
\<close>

definition WithCopyT :: "bool \<Rightarrow> (unit, int, unit) elem_type" where
  "WithCopyT MoveNoexcept = \<lparr>nothrow_move_constructible = MoveNoexcept, copy_constructible = True,
     value_ctor = (\<lambda>e. (e, Inr ())), args_ctor = (\<lambda>c e. (e, Inr ())),
     copy_ctor = (\<lambda>x e. (e, Inr ())), move_ctor = (\<lambda>x e. (e, Inr ((), ()))),
     copy_assign = (\<lambda>d x e. (e, Inr ())), move_assign = (\<lambda>d x e. (e, Inr ((), ()))),
     dtor = (\<lambda>x e. e), sizeof = 1\<rparr>"

text \<open>
  An element type that is not one of \<^verbatim>\<open>main.cpp\<close>: it has the flag \<^verbatim>\<open>throw_on_copy\<close> and the
  countdown of \<^verbatim>\<open>Obj\<close>, copies and moves keep the whole value, and its move constructor is
  not declared \<^verbatim>\<open>noexcept\<close>, as that of \<^verbatim>\<open>WithCopy<false>\<close>. So its relocation copies, and a
  copy made during a relocation can throw.
\<close>

definition ProbeT :: "(bool \<times> int, int, nat) elem_type" where
  "ProbeT = \<lparr>nothrow_move_constructible = False, copy_constructible = True,
     value_ctor = (\<lambda>e. if 0 < e then (if e - 1 = 0 then (e - 1, Inl (runtime_error ''Oops''))
                                      else (e - 1, Inr (False, 0)))
                         else (e, Inr (False, 0))),
     args_ctor = (\<lambda>c e. (e, Inr (False, c))),
     copy_ctor = (\<lambda>x e. (e, if fst x then Inl (runtime_error ''Oops'') else Inr x)),
     move_ctor = (\<lambda>x e. (e, Inr (x, x))),
     copy_assign = (\<lambda>d x e. (e, if fst x then Inl (runtime_error ''Oops'') else Inr x)),
     move_assign = (\<lambda>d x e. (e, Inr (x, x))),
     dtor = (\<lambda>x e. e), sizeof = 8\<rparr>"

text \<open>
  Vector 0 holds three objects in block 0; the second one is flagged \<^verbatim>\<open>throw_on_copy\<close>.
  Vector 1 holds two objects in block 1, none of them flagged. Both vectors are full. The
  countdown is 1, so the next default construction throws.
\<close>

definition probe_state :: "(bool \<times> int, nat) state" where
  "probe_state = \<lparr>heap = (\<lambda>p. if p = Ptr (Some 0) 0 then Some (Live (False, 1))
                              else if p = Ptr (Some 0) 1 then Some (Live (True, 2))
                              else if p = Ptr (Some 0) 2 then Some (Live (False, 3))
                              else if p = Ptr (Some 1) 0 then Some (Live (False, 4))
                              else if p = Ptr (Some 1) 1 then Some (Live (False, 5)) else None),
     next_addr = 2, alloc_limit = 1000,
     vectors = (\<lambda>v. if v = 0 then \<lparr>data = \<lparr>buffer = Ptr (Some 0) 0, capacity = 3\<rparr>, size_field = 3\<rparr>
                     else if v = 1 then \<lparr>data = \<lparr>buffer = Ptr (Some 1) 0, capacity = 2\<rparr>, size_field = 2\<rparr>
                     else Vector_default),
     env = 1, trace = []\<rparr>"

text \<open>Vector 0 holds 1, 2, 3 in block 0, which has room for five elements.\<close>

definition spare_vector :: "(int, unit) state" where
  "spare_vector = \<lparr>heap = (\<lambda>p. if p = Ptr (Some 0) 0 then Some (Live 1)
                               else if p = Ptr (Some 0) 1 then Some (Live 2)
                               else if p = Ptr (Some 0) 2 then Some (Live 3)
                               else if p = Ptr (Some 0) 3 then Some Raw
                               else if p = Ptr (Some 0) 4 then Some Raw else None),
     next_addr = 1, alloc_limit = 1000,
     vectors = (\<lambda>v. if v = 0 then \<lparr>data = \<lparr>buffer = Ptr (Some 0) 0, capacity = 5\<rparr>, size_field = 3\<rparr>
                     else Vector_default),
     env = (), trace = []\<rparr>"

text \<open>Vector 0 holds two objects of \<^verbatim>\<open>WithCopy\<close> in block 0 and is full.\<close>

definition with_copy_state :: "(unit, unit) state" where
  "with_copy_state = \<lparr>heap = (\<lambda>p. if p = Ptr (Some 0) 0 then Some (Live ())
                                  else if p = Ptr (Some 0) 1 then Some (Live ()) else None),
     next_addr = 1, alloc_limit = 1000,
     vectors = (\<lambda>v. if v = 0 then \<lparr>data = \<lparr>buffer = Ptr (Some 0) 0, capacity = 2\<rparr>, size_field = 2\<rparr>
                     else Vector_default),
     env = (), trace = []\<rparr>"

section \<open>Pointers, sequencing and frames\<close>

lemma base_ptr_add [simp]: "base (ptr_add p n) = base p"
  by (simp add: ptr_add_def)

lemma off_ptr_add [simp]: "off (ptr_add p n) = off p + n"
  by (simp add: ptr_add_def)

lemma ptr_add_0 [simp]: "ptr_add p 0 = p"
  by (simp add: ptr_add_def)

lemma ptr_add_add [simp]: "ptr_add (ptr_add p a) b = ptr_add p (a + b)"
  by (simp add: ptr_add_def)

lemma ptr_eq_iff: "p = q \<longleftrightarrow> base p = base q \<and> off p = off q"
  by (cases p; cases q) auto

lemma ptr_add_eq_iff [simp]: "ptr_add p a = ptr_add p b \<longleftrightarrow> a = b"
  by (simp add: ptr_add_def)

lemma ptr_add_eq_self [simp]: "ptr_add p a = p \<longleftrightarrow> a = 0"
  by (simp add: ptr_eq_iff)

lemma self_eq_ptr_add [simp]: "p = ptr_add p a \<longleftrightarrow> a = 0"
  by (simp add: ptr_eq_iff)

lemma ptr_add_neq_base: "base p \<noteq> base q \<Longrightarrow> ptr_add p a \<noteq> ptr_add q b"
  by (simp add: ptr_eq_iff)

lemma seqE:
  assumes "seq m f s = (r, s')"
  obtains (fail) e where "m s = (Inl e, s')" and "r = Inl e"
        | (ok) q s1 where "m s = (Inr q, s1)" and "f q s1 = (r, s')"
  using assms by (auto simp: seq_def split: prod.splits sum.splits)

lemma seq_InrE:
  assumes "seq m f s = (Inr r, s')"
  obtains q s1 where "m s = (Inr q, s1)" and "f q s1 = (Inr r, s')"
  using assms by (auto simp: seq_def split: prod.splits sum.splits)

lemma seq_ok: "m s = (Inr q, s1) \<Longrightarrow> seq m f s = f q s1"
  by (simp add: seq_def)

lemma seq_fail: "m s = (Inl e, s1) \<Longrightarrow> seq m f s = (Inl e, s1)"
  by (simp add: seq_def)

lemma span_0 [simp]: "span first 0 = {}"
  by (auto simp: span_def)

lemma span_Suc: "span first (Suc n) = insert first (span (ptr_add first 1) n)"
  by (auto simp: span_def ptr_eq_iff)

lemma span_Suc_end: "span first (Suc n) = insert (ptr_add first (int n)) (span first n)"
  by (auto simp: span_def ptr_eq_iff)

lemma ptr_add_in_span [simp]: "ptr_add first (int j) \<in> span first n \<longleftrightarrow> j < n"
  by (auto simp: span_def)

lemma first_notin_span_next [simp]: "first \<notin> span (ptr_add first 1) n"
  by (auto simp: span_def)

lemma in_span_iff: "p \<in> span first n \<longleftrightarrow> (\<exists>j<n. p = ptr_add first (int j))"
proof
  assume "p \<in> span first n"
  then have "nat (off p - off first) < n" and "p = ptr_add first (int (nat (off p - off first)))"
    by (auto simp: span_def ptr_eq_iff)
  then show "\<exists>j<n. p = ptr_add first (int j)" by blast
qed auto

lemma span_mono: "m \<le> n \<Longrightarrow> span first m \<subseteq> span first n"
  by (auto simp: span_def)

lemma span_base: "p \<in> span first n \<Longrightarrow> base p = base first"
  by (simp add: span_def)

lemma frame_refl [simp]: "frame W s s"
  by (simp add: frame_def)

lemma frame_trans: "frame W s s1 \<Longrightarrow> frame W' s1 s2 \<Longrightarrow> frame (W \<union> W') s s2"
  by (auto simp: frame_def)

lemma frame_mono: "frame W s s' \<Longrightarrow> W \<subseteq> W' \<Longrightarrow> frame W' s s'"
  by (auto simp: frame_def)

lemma frame_heap: "frame W s s' \<Longrightarrow> p \<notin> W \<Longrightarrow> heap s' p = heap s p"
  by (simp add: frame_def)

lemma frame_vectors: "frame W s s' \<Longrightarrow> vectors s' = vectors s"
  by (simp add: frame_def)

lemma frame_next_addr: "frame W s s' \<Longrightarrow> next_addr s' = next_addr s"
  by (simp add: frame_def)

lemma frame_None: "frame W s s' \<Longrightarrow> heap s' p = None \<longleftrightarrow> heap s p = None"
  by (simp add: frame_def)

lemma frame_env [simp]: "frame W s (s'\<lparr>env := e\<rparr>) = frame W s s'"
  by (simp add: frame_def)

section \<open>One object\<close>

lemma copy_ctor_value: "value_semantics T \<Longrightarrow> copy_ctor T x e = (e', Inr y) \<Longrightarrow> y = x"
  unfolding value_semantics_def by blast

lemma move_ctor_value: "value_semantics T \<Longrightarrow> move_ctor T x e = (e', Inr (y, x')) \<Longrightarrow> y = x"
  unfolding value_semantics_def by blast

lemma copy_assign_value: "value_semantics T \<Longrightarrow> copy_assign T d x e = (e', Inr y) \<Longrightarrow> y = x"
  unfolding value_semantics_def by blast

lemma move_assign_value: "value_semantics T \<Longrightarrow> move_assign T d x e = (e', Inr (y, x')) \<Longrightarrow> y = x"
  unfolding value_semantics_def by blast

lemma place_frame: "place p x ev s = (r, s') \<Longrightarrow> frame {p} s s'"
  by (auto simp: place_def frame_def split: option.splits if_splits)

lemma construct_frame: "construct T p i s = (r, s') \<Longrightarrow> frame (insert p (rvalue_src i)) s s'"
  by (cases i)
     (auto simp: place_def frame_def split: option.splits slot.splits prod.splits sum.splits if_splits)

lemma construct_thrown_frame:
  "construct T p i s = (Inl (Thrown ex), s') \<Longrightarrow> frame {} s s' \<and> trace s' = trace s"
  by (cases i)
     (auto simp: place_def frame_def split: option.splits slot.splits prod.splits sum.splits if_splits)

lemma construct_Inr:
  assumes "construct T p i s = (Inr u, s')"
  shows "live s' p" and "heap s p \<noteq> None" and "trace s' = trace s @ [construct_event p i]"
    and "\<forall>q\<in>rvalue_src i. live s' q"
  using assms
  by (cases i; auto simp: place_def live_def split: option.splits slot.splits prod.splits sum.splits if_splits)+

lemma construct_Lvalue_Inr:
  assumes "construct T p (Lvalue q) s = (Inr u, s')" and "value_semantics T"
  shows "heap s' p = heap s q" and "live s q"
  using assms
  by (auto simp: place_def live_def dest: copy_ctor_value
           split: option.splits slot.splits prod.splits sum.splits if_splits)

lemma construct_Rvalue_Inr:
  assumes "construct T p (Rvalue q) s = (Inr u, s')" and "value_semantics T"
  shows "heap s' p = heap s q" and "live s q"
  using assms
  by (auto simp: place_def live_def dest: move_ctor_value
           split: option.splits slot.splits prod.splits sum.splits if_splits)

text \<open>A construction has defined behaviour when its storage exists and its source is live.\<close>

lemma construct_defined:
  assumes "construct T p i s = (Inl e, s')" and "heap s p \<noteq> None" and "\<forall>q\<in>init_src i. live s q"
  shows "is_thrown e"
  using assms
  by (cases i)
     (auto simp: place_def live_def is_thrown_def
           split: option.splits slot.splits prod.splits sum.splits if_splits)

lemma destroy_at_frame: "destroy_at T p s = (r, s') \<Longrightarrow> frame {p} s s'"
  by (auto simp: destroy_at_def frame_def split: option.splits slot.splits if_splits)

lemma destroy_at_Inr:
  assumes "destroy_at T p s = (Inr u, s')"
  shows "heap s' = (heap s)(p \<mapsto> Raw)" and "live s p" and "trace s' = trace s @ [Destroy p]"
  using assms by (auto simp: destroy_at_def live_def split: option.splits slot.splits)

lemma destroy_at_live: "live s p \<Longrightarrow> \<exists>s'. destroy_at T p s = (Inr (), s')"
  by (auto simp: destroy_at_def live_def)

lemma assign_frame: "assign T k dst src s = (r, s') \<Longrightarrow> frame {dst, src} s s'"
  by (cases k)
     (auto simp: frame_def split: option.splits slot.splits prod.splits sum.splits if_splits)

lemma assign_Inr:
  assumes "assign T k dst src s = (Inr u, s')" and "value_semantics T" and "dst \<noteq> src"
  shows "heap s' dst = heap s src" and "live s src" and "live s dst" and "live s' src"
    and "trace s' = trace s @ [assign_event k (dst, src)]"
  using assms
  by (cases k; auto simp: live_def dest: copy_assign_value move_assign_value
        split: option.splits slot.splits prod.splits sum.splits if_splits)+

section \<open>The loops\<close>

lemma destroy_n_frame: "destroy_n T first n s = (r, s') \<Longrightarrow> frame (span first n) s s'"
proof (induction n arbitrary: first s)
  case 0
  then show ?case by simp
next
  case (Suc n)
  from Suc.prems
  have "seq (destroy_at T first) (\<lambda>u. destroy_n T (ptr_add first 1) n) s = (r, s')" by simp
  then show ?case
  proof (cases rule: seqE)
    case (fail e)
    then show ?thesis
      using destroy_at_frame[of T first s "Inl e" s'] by (auto simp: span_Suc elim: frame_mono)
  next
    case (ok q s1)
    have "frame {first} s s1" using ok(1) by (rule destroy_at_frame)
    moreover have "frame (span (ptr_add first 1) n) s1 s'" using ok(2) by (rule Suc.IH)
    ultimately show ?thesis
      by (auto simp: span_Suc dest: frame_trans)
  qed
qed

lemma destroy_n_not_thrown: "destroy_n T first n s \<noteq> (Inl (Thrown ex), s')"
proof (induction n arbitrary: first s)
  case 0
  then show ?case by simp
next
  case (Suc n)
  show ?case
  proof
    assume "destroy_n T first (Suc n) s = (Inl (Thrown ex), s')"
    then have "seq (destroy_at T first) (\<lambda>u. destroy_n T (ptr_add first 1) n) s = (Inl (Thrown ex), s')"
      by simp
    then show False
      using Suc.IH by (cases rule: seqE) (auto simp: destroy_at_def split: option.splits slot.splits)
  qed
qed

lemma destroy_n_Inr:
  assumes "destroy_n T first n s = (Inr u, s')"
  shows "heap s' = (\<lambda>q. if q \<in> span first n then Some Raw else heap s q)"
    and "\<forall>q\<in>span first n. live s q"
    and "trace s' = trace s @ map (\<lambda>j. Destroy (ptr_add first (int j))) [0..<n]"
  using assms
proof (induction n arbitrary: first s)
  case 0
  { case 1 then show ?case by simp }
  { case 2 then show ?case by simp }
  { case 3 then show ?case by simp }
next
  case (Suc n)
  {
    fix first s
    assume run: "destroy_n T first (Suc n) s = (Inr u, s')"
    then have "seq (destroy_at T first) (\<lambda>u. destroy_n T (ptr_add first 1) n) s = (Inr u, s')" by simp
    then obtain q s1 where 1: "destroy_at T first s = (Inr q, s1)"
      and 2: "destroy_n T (ptr_add first 1) n s1 = (Inr u, s')"
      by (rule seq_InrE)
    note a = destroy_at_Inr[OF 1]
    note b = Suc.IH(1)[OF 2] Suc.IH(2)[OF 2] Suc.IH(3)[OF 2]
    have "heap s' = (\<lambda>q. if q \<in> span first (Suc n) then Some Raw else heap s q)"
      using a(1) b(1) by (auto simp: span_Suc fun_eq_iff)
    moreover have "\<forall>q\<in>span first (Suc n). live s q"
      using a(1,2) b(2) by (auto simp: span_Suc live_def split: if_splits)
    moreover have "trace s' = trace s @ map (\<lambda>j. Destroy (ptr_add first (int j))) [0..<Suc n]"
      using a(3) b(3) by (simp add: map_upt_Suc add.commute del: upt_Suc)
    ultimately have "heap s' = (\<lambda>q. if q \<in> span first (Suc n) then Some Raw else heap s q)
      \<and> (\<forall>q\<in>span first (Suc n). live s q)
      \<and> trace s' = trace s @ map (\<lambda>j. Destroy (ptr_add first (int j))) [0..<Suc n]" by blast
  } note step = this
  { case 1 then show ?case using step by blast }
  { case 2 then show ?case using step by blast }
  { case 3 then show ?case using step by blast }
qed

lemma destroy_n_live:
  "\<forall>q\<in>span first n. live s q \<Longrightarrow> \<exists>s'. destroy_n T first n s = (Inr (), s')"
proof (induction n arbitrary: first s)
  case 0
  then show ?case by simp
next
  case (Suc n)
  then have "live s first" by (simp add: span_Suc)
  then obtain s1 where 1: "destroy_at T first s = (Inr (), s1)"
    using destroy_at_live by blast
  have "\<forall>q\<in>span (ptr_add first 1) n. live s1 q"
    using Suc.prems destroy_at_Inr(1)[OF 1] by (auto simp: span_Suc live_def)
  then obtain s' where "destroy_n T (ptr_add first 1) n s1 = (Inr (), s')"
    using Suc.IH by blast
  then show ?case using 1 by (simp add: seq_ok)
qed


lemma catch_all_cases:
  assumes "catch_all e h s = (r, s')"
  obtains (not_caught) "\<not> is_thrown e" and "r = Inl e" and "s' = s"
    | (handler_failed) ex e' where "e = Thrown ex" and "h s = (Inl e', s')" and "r = Inl e'"
    | (rethrown) ex u where "e = Thrown ex" and "h s = (Inr u, s')" and "r = Inl (Thrown ex)"
  using assms
  by (auto simp: catch_all_def is_thrown_def split: error.splits prod.splits sum.splits)

lemma uninitialized_loop_frame:
  "uninitialized_loop T mk result i n s = (r, s') \<Longrightarrow>
   frame (span result (i + n) \<union> (\<Union>j\<in>{i..<i + n}. rvalue_src (mk j))) s s'"
proof (induction n arbitrary: i s)
  case 0
  then show ?case by simp
next
  case (Suc n)
  let ?W = "span result (i + Suc n) \<union> (\<Union>j\<in>{i..<i + Suc n}. rvalue_src (mk j))"
  obtain r1 s1 where c: "construct T (ptr_add result (int i)) (mk i) s = (r1, s1)"
    by (cases "construct T (ptr_add result (int i)) (mk i) s")
  have f1: "frame ?W s s1"
    using construct_frame[OF c] by (rule frame_mono) auto
  show ?case
  proof (cases r1)
    case (Inl e)
    with c Suc.prems have h: "catch_all e (destroy_n T result i) s1 = (r, s')" by simp
    have "frame ?W s1 s'"
      using h
    proof (cases rule: catch_all_cases)
      case not_caught
      then show ?thesis by simp
    next
      case (handler_failed ex e')
      show ?thesis
        using destroy_n_frame[OF handler_failed(2)] span_mono[of i "i + Suc n" result]
        by (auto elim: frame_mono)
    next
      case (rethrown ex u)
      show ?thesis
        using destroy_n_frame[OF rethrown(2)] span_mono[of i "i + Suc n" result]
        by (auto elim: frame_mono)
    qed
    with f1 show ?thesis using frame_trans by fastforce
  next
    case (Inr u)
    with c Suc.prems have "uninitialized_loop T mk result (Suc i) n s1 = (r, s')" by simp
    from Suc.IH[OF this] have "frame ?W s1 s'"
      by (rule frame_mono) (auto simp: span_def)
    with f1 show ?thesis using frame_trans by fastforce
  qed
qed

lemma uninitialized_loop_trace:
  "uninitialized_loop T mk result i n s = (Inr u, s') \<Longrightarrow>
   trace s' = trace s @ map (\<lambda>j. construct_event (ptr_add result (int j)) (mk j)) [i..<i + n]"
proof (induction n arbitrary: i s)
  case 0
  then show ?case by simp
next
  case (Suc n)
  obtain r1 s1 where c: "construct T (ptr_add result (int i)) (mk i) s = (r1, s1)"
    by (cases "construct T (ptr_add result (int i)) (mk i) s")
  show ?case
  proof (cases r1)
    case (Inl e)
    with c Suc.prems have "catch_all e (destroy_n T result i) s1 = (Inr u, s')" by simp
    then show ?thesis by (cases rule: catch_all_cases) auto
  next
    case (Inr v)
    with c Suc.prems have "uninitialized_loop T mk result (Suc i) n s1 = (Inr u, s')" by simp
    from Suc.IH[OF this] construct_Inr(3)[of T _ _ s v s1] c Inr
    show ?thesis by (simp add: upt_conv_Cons del: upt_Suc)
  qed
qed

lemma moves_never_throwD: "moves_never_throw T \<Longrightarrow> move_ctor T x e \<noteq> (e', Inl ex)"
proof
  assume a: "moves_never_throw T" and b: "move_ctor T x e = (e', Inl ex)"
  from a obtain e1 r where "move_ctor T x e = (e1, Inr r)"
    unfolding moves_never_throw_def by blast
  with b show False by simp
qed

lemma uninitialized_loop_not_thrown:
  assumes "moves_never_throw T" and "\<forall>j. \<exists>q. mk j = Rvalue q"
  shows "uninitialized_loop T mk result i n s \<noteq> (Inl (Thrown ex), s')"
proof (induction n arbitrary: i s)
  case 0
  then show ?case by simp
next
  case (Suc n)
  obtain q where q: "mk i = Rvalue q" using assms(2) by blast
  obtain r1 s1 where c: "construct T (ptr_add result (int i)) (mk i) s = (r1, s1)"
    by (cases "construct T (ptr_add result (int i)) (mk i) s")
  have nt: "r1 \<noteq> Inl (Thrown ex')" for ex'
    using c q moves_never_throwD[OF assms(1)]
    by (auto simp: place_def split: option.splits slot.splits prod.splits sum.splits)
  show ?case
  proof (cases r1)
    case (Inl e)
    with nt have "\<not> is_thrown e" by (auto simp: is_thrown_def split: error.splits)
    with c Inl show ?thesis
      by (auto simp: catch_all_def is_thrown_def split: error.splits)
  next
    case (Inr v)
    with c Suc.IH show ?thesis by simp
  qed
qed


lemma uninitialized_loop_Inr_frame:
  "uninitialized_loop T mk result i n s = (Inr u, s') \<Longrightarrow>
   frame (span (ptr_add result (int i)) n \<union> (\<Union>j\<in>{i..<i + n}. rvalue_src (mk j))) s s'"
proof (induction n arbitrary: i s)
  case 0
  then show ?case by simp
next
  case (Suc n)
  let ?W = "span (ptr_add result (int i)) (Suc n) \<union> (\<Union>j\<in>{i..<i + Suc n}. rvalue_src (mk j))"
  obtain r1 s1 where c: "construct T (ptr_add result (int i)) (mk i) s = (r1, s1)"
    by (cases "construct T (ptr_add result (int i)) (mk i) s")
  have f1: "frame ?W s s1"
    using construct_frame[OF c] by (rule frame_mono) (auto simp: span_Suc)
  show ?case
  proof (cases r1)
    case (Inl e)
    with c Suc.prems have "catch_all e (destroy_n T result i) s1 = (Inr u, s')" by simp
    then show ?thesis by (cases rule: catch_all_cases) auto
  next
    case (Inr v)
    with c Suc.prems have "uninitialized_loop T mk result (Suc i) n s1 = (Inr u, s')" by simp
    from Suc.IH[OF this] have "frame ?W s1 s'"
      by (rule frame_mono) (auto simp: span_def)
    with f1 show ?thesis using frame_trans by fastforce
  qed
qed

lemma uninitialized_loop_values:
  assumes "uninitialized_loop T mk result i n s = (Inr u, s')"
    and "value_semantics T"
    and "\<forall>j. mk j = Lvalue (ptr_add first (int j)) \<or> mk j = Rvalue (ptr_add first (int j))"
    and "base first \<noteq> base result"
  shows "\<forall>j. i \<le> j \<and> j < i + n \<longrightarrow>
           heap s' (ptr_add result (int j)) = heap s (ptr_add first (int j)) \<and>
           live s (ptr_add first (int j)) \<and> live s' (ptr_add first (int j))"
  using assms(1)
proof (induction n arbitrary: i s)
  case 0
  then show ?case by auto
next
  case (Suc n)
  let ?d = "ptr_add result (int i)" and ?f = "ptr_add first (int i)"
  obtain r1 s1 where c: "construct T ?d (mk i) s = (r1, s1)"
    by (cases "construct T ?d (mk i) s")
  show ?case
  proof (cases r1)
    case (Inl e)
    with c Suc.prems have "catch_all e (destroy_n T result i) s1 = (Inr u, s')" by simp
    then show ?thesis by (cases rule: catch_all_cases) auto
  next
    case (Inr v)
    with c Suc.prems have rest: "uninitialized_loop T mk result (Suc i) n s1 = (Inr u, s')" by simp
    note ih = Suc.IH[OF rest]
    have c': "construct T ?d (mk i) s = (Inr v, s1)" using c Inr by simp
    have mk: "mk i = Lvalue ?f \<or> mk i = Rvalue ?f" using assms(3) by blast
    have here: "heap s1 ?d = heap s ?f" "live s ?f" "live s1 ?f"
      using mk c' construct_Lvalue_Inr[of T ?d ?f s v s1] construct_Rvalue_Inr[of T ?d ?f s v s1]
        construct_Inr(4)[OF c'] assms(2,4) construct_frame[OF c']
      by (auto simp: frame_def live_def ptr_eq_iff)
    have f1: "frame {?d, ?f} s s1"
      using mk construct_frame[OF c'] by (auto elim: frame_mono)
    have srcs: "(\<Union>j\<in>{Suc i..<Suc i + n}. rvalue_src (mk j)) \<subseteq> span (ptr_add first (int (Suc i))) n"
    proof
      fix q assume "q \<in> (\<Union>j\<in>{Suc i..<Suc i + n}. rvalue_src (mk j))"
      then obtain j where j: "Suc i \<le> j" "j < Suc i + n" "q \<in> rvalue_src (mk j)" by auto
      with assms(3)[rule_format, of j] have "q = ptr_add first (int j)" by auto
      with j show "q \<in> span (ptr_add first (int (Suc i))) n" by (auto simp: span_def)
    qed
    have f2: "frame (span (ptr_add result (int (Suc i))) n \<union> span (ptr_add first (int (Suc i))) n) s1 s'"
      by (rule frame_mono[OF uninitialized_loop_Inr_frame[OF rest]]) (use srcs in auto)
    have keep_d: "heap s' ?d = heap s1 ?d"
      using f2 assms(4) by (intro frame_heap[OF f2]) (auto simp: span_def)
    have keep_f: "heap s' ?f = heap s1 ?f"
      using f2 assms(4) by (intro frame_heap[OF f2]) (auto simp: span_def)
    show ?thesis
    proof (intro allI impI)
      fix j assume j: "i \<le> j \<and> j < i + Suc n"
      show "heap s' (ptr_add result (int j)) = heap s (ptr_add first (int j)) \<and>
            live s (ptr_add first (int j)) \<and> live s' (ptr_add first (int j))"
      proof (cases "j = i")
        case True
        then show ?thesis using here keep_d keep_f by (simp add: live_def)
      next
        case False
        with j have j': "Suc i \<le> j \<and> j < Suc i + n" by simp
        have "heap s1 (ptr_add first (int j)) = heap s (ptr_add first (int j))"
          using False assms(4) by (intro frame_heap[OF f1]) (auto simp: ptr_eq_iff)
        with ih[rule_format, OF j'] show ?thesis by (simp add: live_def)
      qed
    qed
  qed
qed

lemma uninitialized_loop_rollback:
  assumes "uninitialized_loop T mk result i n s = (Inl (Thrown ex), s')"
    and "\<forall>j. rvalue_src (mk j) = {}"
    and "\<forall>j. i \<le> j \<and> j < i + n \<longrightarrow> heap s (ptr_add result (int j)) = Some Raw"
  shows "heap s' = (\<lambda>q. if q \<in> span result i then Some Raw else heap s q) \<and>
         (\<exists>k. i \<le> k \<and> k < i + n \<and>
            trace s' = trace s @ map (\<lambda>j. construct_event (ptr_add result (int j)) (mk j)) [i..<k]
                               @ map (\<lambda>j. Destroy (ptr_add result (int j))) [0..<k] \<and>
            (\<exists>sk sk'. frame (span result (i + n)) s sk \<and>
               construct T (ptr_add result (int k)) (mk k) sk = (Inl (Thrown ex), sk')))"
  using assms(1,3)
proof (induction n arbitrary: i s)
  case 0
  then show ?case by simp
next
  case (Suc n)
  let ?d = "ptr_add result (int i)"
  obtain r1 s1 where c: "construct T ?d (mk i) s = (r1, s1)"
    by (cases "construct T ?d (mk i) s")
  show ?case
  proof (cases r1)
    case (Inl e)
    with c Suc.prems have "catch_all e (destroy_n T result i) s1 = (Inl (Thrown ex), s')" by simp
    then show ?thesis
    proof (cases rule: catch_all_cases)
      case not_caught
      then show ?thesis by (auto simp: is_thrown_def)
    next
      case (handler_failed ex' e')
      then show ?thesis using destroy_n_not_thrown by blast
    next
      case (rethrown ex' w)
      then have e: "e = Thrown ex" by simp
      have c': "construct T ?d (mk i) s = (Inl (Thrown ex), s1)" using c Inl e by simp
      note t = construct_thrown_frame[OF c']
      note d = destroy_n_Inr[OF rethrown(2)]
      have hs: "heap s1 = heap s" using t by (auto simp: frame_def)
      have "heap s' = (\<lambda>q. if q \<in> span result i then Some Raw else heap s q)"
        unfolding d(1) hs by (rule refl)
      moreover have "trace s' = trace s @ map (\<lambda>j. construct_event (ptr_add result (int j)) (mk j)) [i..<i]
                               @ map (\<lambda>j. Destroy (ptr_add result (int j))) [0..<i]"
        using d(3) t by simp
      moreover have "frame (span result (i + Suc n)) s s" by simp
      ultimately show ?thesis using c' by (intro conjI exI[of _ i] exI[of _ s] exI[of _ s1]) auto
    qed
  next
    case (Inr v)
    with c Suc.prems have rest: "uninitialized_loop T mk result (Suc i) n s1 = (Inl (Thrown ex), s')"
      by simp
    have c': "construct T ?d (mk i) s = (Inr v, s1)" using c Inr by simp
    have f1: "frame {?d} s s1" using construct_frame[OF c'] assms(2) by simp
    have raw: "\<forall>j. Suc i \<le> j \<and> j < Suc i + n \<longrightarrow> heap s1 (ptr_add result (int j)) = Some Raw"
      using Suc.prems(2) f1 by (auto simp: frame_def)
    from Suc.IH[OF rest raw] obtain k sk sk' where
      h: "heap s' = (\<lambda>q. if q \<in> span result (Suc i) then Some Raw else heap s1 q)"
      and k: "Suc i \<le> k" "k < Suc i + n"
      and tr: "trace s' = trace s1 @ map (\<lambda>j. construct_event (ptr_add result (int j)) (mk j)) [Suc i..<k]
                               @ map (\<lambda>j. Destroy (ptr_add result (int j))) [0..<k]"
      and fk: "frame (span result (Suc i + n)) s1 sk"
      and ck: "construct T (ptr_add result (int k)) (mk k) sk = (Inl (Thrown ex), sk')"
      by blast
    have "heap s' = (\<lambda>q. if q \<in> span result i then Some Raw else heap s q)"
    proof
      fix q
      show "heap s' q = (if q \<in> span result i then Some Raw else heap s q)"
        using h f1 Suc.prems(2)[rule_format, of i]
        by (cases "q = ?d") (auto simp: span_Suc_end frame_def)
    qed
    moreover have "trace s' = trace s @ map (\<lambda>j. construct_event (ptr_add result (int j)) (mk j)) [i..<k]
                               @ map (\<lambda>j. Destroy (ptr_add result (int j))) [0..<k]"
      using tr construct_Inr(3)[OF c'] k by (simp add: upt_conv_Cons del: upt_Suc)
    moreover have "frame (span result (i + Suc n)) s sk"
      using frame_trans[OF f1 fk] by (rule frame_mono) auto
    ultimately show ?thesis using k ck
      by (intro conjI exI[of _ k] exI[of _ sk] exI[of _ sk']) auto
  qed
qed

lemma uninitialized_loop_defined:
  assumes "uninitialized_loop T mk result i n s = (Inl e, s')"
    and "\<forall>j<i + n. heap s (ptr_add result (int j)) \<noteq> None"
    and "\<forall>j<i. live s (ptr_add result (int j))"
    and "\<forall>j. i \<le> j \<and> j < i + n \<longrightarrow> (\<forall>q\<in>init_src (mk j). live s q \<and> q \<notin> span result (i + n))"
  shows "is_thrown e"
  using assms
proof (induction n arbitrary: i s)
  case 0
  then show ?case by simp
next
  case (Suc n)
  let ?d = "ptr_add result (int i)"
  obtain r1 s1 where c: "construct T ?d (mk i) s = (r1, s1)"
    by (cases "construct T ?d (mk i) s")
  have f1: "frame (insert ?d (rvalue_src (mk i))) s s1" using c by (rule construct_frame)
  show ?case
  proof (cases r1)
    case (Inl e1)
    with c have c': "construct T ?d (mk i) s = (Inl e1, s1)" by simp
    have thrown: "is_thrown e1"
      using c' Suc.prems(2,4) by (intro construct_defined[OF c']) auto
    then obtain ex where ex: "e1 = Thrown ex" by (auto simp: is_thrown_def split: error.splits)
    have "frame {} s s1" using c' ex construct_thrown_frame by blast
    then have "\<forall>q\<in>span result i. live s1 q"
      using Suc.prems(3) by (auto simp: in_span_iff frame_def live_def)
    then obtain s2 where "destroy_n T result i s1 = (Inr (), s2)"
      using destroy_n_live by blast
    with c Inl ex Suc.prems(1) show ?thesis
      by (auto simp: catch_all_def is_thrown_def)
  next
    case (Inr v)
    with c Suc.prems have rest: "uninitialized_loop T mk result (Suc i) n s1 = (Inl e, s')" by simp
    have c': "construct T ?d (mk i) s = (Inr v, s1)" using c Inr by simp
    have a: "\<forall>j<Suc i + n. heap s1 (ptr_add result (int j)) \<noteq> None"
      using Suc.prems(2) f1 by (auto simp: frame_def)
    have rv: "\<forall>q\<in>rvalue_src (mk i). live s1 q" using construct_Inr(4)[OF c'] .
    have b: "\<forall>j<Suc i. live s1 (ptr_add result (int j))"
    proof (intro allI impI)
      fix j assume "j < Suc i"
      show "live s1 (ptr_add result (int j))"
      proof (cases "j = i")
        case True
        then show ?thesis using construct_Inr(1)[OF c'] by simp
      next
        case False
        with \<open>j < Suc i\<close> have ji: "j < i" by simp
        show ?thesis
        proof (cases "ptr_add result (int j) \<in> rvalue_src (mk i)")
          case True
          then show ?thesis using rv by blast
        next
          case False
          then have "heap s1 (ptr_add result (int j)) = heap s (ptr_add result (int j))"
            using ji by (intro frame_heap[OF f1]) auto
          then show ?thesis using Suc.prems(3) ji by (simp add: live_def)
        qed
      qed
    qed
    have d: "\<forall>j. Suc i \<le> j \<and> j < Suc i + n \<longrightarrow> (\<forall>q\<in>init_src (mk j). live s1 q \<and> q \<notin> span result (Suc i + n))"
    proof (intro allI impI ballI)
      fix j q assume j: "Suc i \<le> j \<and> j < Suc i + n" and q: "q \<in> init_src (mk j)"
      from Suc.prems(4)[rule_format, of j q] j q
      have l: "live s q" and out: "q \<notin> span result (i + Suc n)" by auto
      have "live s1 q"
      proof (cases "q \<in> rvalue_src (mk i)")
        case True
        then show ?thesis using rv by blast
      next
        case False
        have "q \<noteq> ?d" using out by auto
        then have "heap s1 q = heap s q" using False by (intro frame_heap[OF f1]) auto
        then show ?thesis using l by (simp add: live_def)
      qed
      then show "live s1 q \<and> q \<notin> span result (Suc i + n)" using out by simp
    qed
    show ?thesis using Suc.IH[OF rest a b d] .
  qed
qed


lemma assign_each_append:
  "assign_each T k (ps @ qs) s = seq (assign_each T k ps) (\<lambda>u. assign_each T k qs) s"
proof (induction ps arbitrary: s)
  case Nil
  then show ?case by (simp add: seq_def)
next
  case (Cons ds ps)
  show ?case
    by (cases "assign T k (fst ds) (snd ds) s") (auto simp: seq_def Cons.IH split: sum.splits)
qed

lemma assign_each_frame:
  "assign_each T k ps s = (r, s') \<Longrightarrow> frame (fst ` set ps \<union> snd ` set ps) s s'"
proof (induction ps arbitrary: s)
  case Nil
  then show ?case by simp
next
  case (Cons ds ps)
  from Cons.prems
  have "seq (assign T k (fst ds) (snd ds)) (\<lambda>u. assign_each T k ps) s = (r, s')" by simp
  then show ?case
  proof (cases rule: seqE)
    case (fail e)
    show ?thesis by (rule frame_mono[OF assign_frame[OF fail(1)]]) auto
  next
    case (ok q s1)
    show ?thesis
      by (rule frame_mono[OF frame_trans[OF assign_frame[OF ok(1)] Cons.IH[OF ok(2)]]]) auto
  qed
qed

lemma assign_trace:
  "assign T k dst src s = (Inr u, s') \<Longrightarrow> trace s' = trace s @ [assign_event k (dst, src)]"
  by (cases k) (auto split: option.splits slot.splits prod.splits sum.splits)

lemma assign_each_trace:
  "assign_each T k ps s = (Inr u, s') \<Longrightarrow> trace s' = trace s @ map (assign_event k) ps"
proof (induction ps arbitrary: s)
  case Nil
  then show ?case by simp
next
  case (Cons ds ps)
  from Cons.prems
  have "seq (assign T k (fst ds) (snd ds)) (\<lambda>u. assign_each T k ps) s = (Inr u, s')" by simp
  then obtain q s1 where 1: "assign T k (fst ds) (snd ds) s = (Inr q, s1)"
    and 2: "assign_each T k ps s1 = (Inr u, s')" by (rule seq_InrE)
  show ?case using assign_trace[OF 1] Cons.IH[OF 2] by simp
qed

text \<open>Shifting a range one slot to the left, from the front.\<close>

lemma shift_left:
  assumes "assign_each T k (map (\<lambda>i. (ptr_add d (int i), ptr_add d (int i + 1))) [0..<n]) s = (Inr u, s')"
    and "value_semantics T"
  shows "(\<forall>j<n. heap s' (ptr_add d (int j)) = heap s (ptr_add d (int j + 1)) \<and> live s (ptr_add d (int j + 1)))
         \<and> (0 < n \<longrightarrow> live s' (ptr_add d (int n)))
         \<and> frame (span d (Suc n)) s s'"
  using assms(1)
proof (induction n arbitrary: s' u)
  case 0
  then show ?case by simp
next
  case (Suc n)
  let ?ps = "map (\<lambda>i. (ptr_add d (int i), ptr_add d (int i + 1))) [0..<n]"
  from Suc.prems
  have "seq (assign_each T k ?ps) (\<lambda>u. assign_each T k [(ptr_add d (int n), ptr_add d (int n + 1))]) s
        = (Inr u, s')"
    by (simp add: assign_each_append)
  then obtain q s1 where 1: "assign_each T k ?ps s = (Inr q, s1)"
    and 2: "assign_each T k [(ptr_add d (int n), ptr_add d (int n + 1))] s1 = (Inr u, s')"
    by (rule seq_InrE)
  from 2 have 3: "assign T k (ptr_add d (int n)) (ptr_add d (int n + 1)) s1 = (Inr u, s')"
    by (auto simp: seq_def split: prod.splits sum.splits)
  note ih = Suc.IH[OF 1]
  have f1: "frame (span d (Suc n)) s s1" using ih by simp
  note a = assign_Inr[OF 3 assms(2)]
  have f2: "frame {ptr_add d (int n), ptr_add d (int n + 1)} s1 s'" using 3 by (rule assign_frame)
  have last: "heap s1 (ptr_add d (int n + 1)) = heap s (ptr_add d (int n + 1))"
    by (rule frame_heap[OF f1]) (auto simp: span_def)
  have "\<forall>j<Suc n. heap s' (ptr_add d (int j)) = heap s (ptr_add d (int j + 1)) \<and> live s (ptr_add d (int j + 1))"
  proof (intro allI impI)
    fix j assume "j < Suc n"
    show "heap s' (ptr_add d (int j)) = heap s (ptr_add d (int j + 1)) \<and> live s (ptr_add d (int j + 1))"
    proof (cases "j = n")
      case True
      then show ?thesis using a(1,2) last by (simp add: live_def)
    next
      case False
      with \<open>j < Suc n\<close> have jn: "j < n" by simp
      have "heap s' (ptr_add d (int j)) = heap s1 (ptr_add d (int j))"
        using jn by (intro frame_heap[OF f2]) auto
      then show ?thesis using ih jn by simp
    qed
  qed
  moreover have "live s' (ptr_add d (int (Suc n)))" using a(4) by (simp add: add.commute)
  moreover have "frame (span d (Suc (Suc n))) s s'"
    by (rule frame_mono[OF frame_trans[OF f1 f2]]) (auto simp: span_def)
  ultimately show ?case by simp
qed

text \<open>Shifting a range one slot to the right, from the back.\<close>

lemma shift_right:
  assumes "assign_each T k (map (\<lambda>i. (ptr_add f (int n - int i), ptr_add f (int n - 1 - int i))) [0..<n]) s
           = (Inr u, s')"
    and "value_semantics T"
  shows "(\<forall>j<n. heap s' (ptr_add f (int j + 1)) = heap s (ptr_add f (int j)) \<and> live s (ptr_add f (int j)))
         \<and> (0 < n \<longrightarrow> live s' f \<and> live s (ptr_add f (int n)))
         \<and> frame (span f (Suc n)) s s'"
  using assms(1)
proof (induction n arbitrary: s u)
  case 0
  then show ?case by simp
next
  case (Suc n)
  let ?ps = "map (\<lambda>i. (ptr_add f (int n - int i), ptr_add f (int n - 1 - int i))) [0..<n]"
  have "map (\<lambda>i. (ptr_add f (int (Suc n) - int i), ptr_add f (int (Suc n) - 1 - int i))) [0..<Suc n]
        = (ptr_add f (int n + 1), ptr_add f (int n)) # ?ps"
    by (simp add: map_upt_Suc add.commute del: upt_Suc)
  with Suc.prems
  have "seq (assign T k (ptr_add f (int n + 1)) (ptr_add f (int n))) (\<lambda>u. assign_each T k ?ps) s = (Inr u, s')"
    by simp
  then obtain q s1 where 1: "assign T k (ptr_add f (int n + 1)) (ptr_add f (int n)) s = (Inr q, s1)"
    and 2: "assign_each T k ?ps s1 = (Inr u, s')"
    by (rule seq_InrE)
  note ih = Suc.IH[OF 2]
  have f2: "frame (span f (Suc n)) s1 s'" using ih by simp
  have a: "heap s1 (ptr_add f (int n + 1)) = heap s (ptr_add f (int n))" "live s (ptr_add f (int n))"
    "live s (ptr_add f (int n + 1))" "live s1 (ptr_add f (int n))"
    using assign_Inr[OF 1 assms(2)] by simp_all
  have f1: "frame {ptr_add f (int n + 1), ptr_add f (int n)} s s1" using 1 by (rule assign_frame)
  have top: "heap s' (ptr_add f (int n + 1)) = heap s1 (ptr_add f (int n + 1))"
    by (rule frame_heap[OF f2]) (auto simp: span_def)
  have "\<forall>j<Suc n. heap s' (ptr_add f (int j + 1)) = heap s (ptr_add f (int j)) \<and> live s (ptr_add f (int j))"
  proof (intro allI impI)
    fix j assume "j < Suc n"
    show "heap s' (ptr_add f (int j + 1)) = heap s (ptr_add f (int j)) \<and> live s (ptr_add f (int j))"
    proof (cases "j = n")
      case True
      then show ?thesis using a top by simp
    next
      case False
      with \<open>j < Suc n\<close> have jn: "j < n" by simp
      have eq: "heap s1 (ptr_add f (int j)) = heap s (ptr_add f (int j))"
        using jn by (intro frame_heap[OF f1]) auto
      from ih jn have "heap s' (ptr_add f (int j + 1)) = heap s1 (ptr_add f (int j))"
        and "live s1 (ptr_add f (int j))" by blast+
      then show ?thesis unfolding live_def eq by simp
    qed
  qed
  moreover have "live s' f"
  proof (cases "n = 0")
    case True
    then have "s' = s1" using 2 by simp
    then show ?thesis using a(4) True by simp
  next
    case False
    then show ?thesis using ih by simp
  qed
  moreover have "frame (span f (Suc (Suc n))) s s'"
    by (rule frame_mono[OF frame_trans[OF f1 f2]]) (auto simp: span_def)
  ultimately show ?case using a(3) by (simp add: add.commute)
qed


section \<open>Allocation and the scope of a new block\<close>

lemma block_bytes_eq: "block_bytes T n = (n * sizeof T) mod 2 ^ 64"
proof -
  have "int (block_bytes T n) = int ((n * sizeof T) mod 2 ^ 64)"
    by (simp add: block_bytes_def zmod_int)
  then show ?thesis by (simp only: of_nat_eq_iff)
qed

lemma fits_block:
  assumes "fits T n"
  shows "block_bytes T n = n * sizeof T" and "block_slots T n = n"
  using assms by (simp_all add: block_slots_def block_bytes_eq fits_def)

lemma Allocate_cases:
  assumes "Allocate T n s = (r, s')"
  obtains (zero) "n = 0" and "r = Inr nullptr" and "s' = s"
    | (no_memory) "n \<noteq> 0" and "alloc_limit s < block_bytes T n"
        and "r = Inl (Thrown bad_alloc)" and "s' = s"
    | (block) "n \<noteq> 0" and "\<not> alloc_limit s < block_bytes T n"
        and "r = Inr (new_buffer s)" and "s' = fresh_block (block_slots T n) s"
proof (cases "n = 0")
  case True
  with assms show ?thesis by (intro zero) (simp_all add: Allocate_def)
next
  case False
  show ?thesis
  proof (cases "alloc_limit s < block_bytes T n")
    case True
    with False assms show ?thesis by (intro no_memory) (simp_all add: Allocate_def)
  next
    case lim: False
    with False assms show ?thesis
      by (intro block) (simp_all add: Allocate_def fresh_block_def new_buffer_def)
  qed
qed

lemma with_new_data_unfold:
  "n \<noteq> 0 \<Longrightarrow> with_new_data T n body s =
     (if alloc_limit s < block_bytes T n then (Inl (Thrown bad_alloc), s)
      else case body \<lparr>buffer = new_buffer s, capacity = n\<rparr> (fresh_block (block_slots T n) s) of
             (Inl e, s2) \<Rightarrow> (Inl e, Deallocate (new_buffer s) s2)
           | (Inr nd, s2) \<Rightarrow> (Inr (), Deallocate (buffer nd) s2))"
  by (simp add: with_new_data_def RawMemory_ctor_def RawMemory_dtor_def Allocate_def
        fresh_block_def new_buffer_def split: prod.splits sum.splits)

lemma with_new_data_cases:
  assumes "with_new_data T n body s = (r, s')" and "n \<noteq> 0"
  obtains (no_memory) "r = Inl (Thrown bad_alloc)" and "s' = s"
    | (body_failed) e s2 where
        "body \<lparr>buffer = new_buffer s, capacity = n\<rparr> (fresh_block (block_slots T n) s) = (Inl e, s2)"
        and "r = Inl e" and "s' = Deallocate (new_buffer s) s2"
    | (body_done) nd s2 where
        "body \<lparr>buffer = new_buffer s, capacity = n\<rparr> (fresh_block (block_slots T n) s) = (Inr nd, s2)"
        and "r = Inr ()" and "s' = Deallocate (buffer nd) s2"
proof (cases "alloc_limit s < block_bytes T n")
  case True
  with assms show ?thesis by (intro no_memory) (simp_all add: with_new_data_unfold)
next
  case False
  obtain rb s2 where b: "body \<lparr>buffer = new_buffer s, capacity = n\<rparr> (fresh_block (block_slots T n) s) = (rb, s2)"
    by (cases "body \<lparr>buffer = new_buffer s, capacity = n\<rparr> (fresh_block (block_slots T n) s)")
  show ?thesis
  proof (cases rb)
    case (Inl e)
    with assms False b show ?thesis by (intro body_failed[of e s2]) (simp_all add: with_new_data_unfold)
  next
    case (Inr nd)
    with assms False b show ?thesis by (intro body_done[of nd s2]) (simp_all add: with_new_data_unfold)
  qed
qed

lemma fresh_block_simps [simp]:
  "vectors (fresh_block n s) = vectors s"
  "next_addr (fresh_block n s) = Suc (next_addr s)"
  "alloc_limit (fresh_block n s) = alloc_limit s"
  "trace (fresh_block n s) = trace s"
  "env (fresh_block n s) = env s"
  by (simp_all add: fresh_block_def)

lemma new_buffer_simps [simp]:
  "base (new_buffer s) = Some (next_addr s)" "off (new_buffer s) = 0" "new_buffer s \<noteq> nullptr"
  by (simp_all add: new_buffer_def nullptr_def)

lemma heap_fresh_block:
  "heap (fresh_block n s) p =
     (if base p = Some (next_addr s) \<and> 0 \<le> off p \<and> off p < int n then Some Raw else heap s p)"
  by (simp add: fresh_block_def)

lemma heap_fresh_block_new [simp]:
  "heap (fresh_block n s) (ptr_add (new_buffer s) (int j)) = (if j < n then Some Raw else heap s (ptr_add (new_buffer s) (int j)))"
  by (simp add: fresh_block_def)

lemma Deallocate_simps [simp]:
  "vectors (Deallocate buf s) = vectors s"
  "next_addr (Deallocate buf s) = next_addr s"
  "alloc_limit (Deallocate buf s) = alloc_limit s"
  "trace (Deallocate buf s) = trace s"
  "env (Deallocate buf s) = env s"
  by (simp_all add: Deallocate_def)

lemma heap_Deallocate:
  "heap (Deallocate buf s) p = (if buf \<noteq> nullptr \<and> base p = base buf then None else heap s p)"
  by (simp add: Deallocate_def)

lemma store_ok_fresh: "store_ok s \<Longrightarrow> base p = Some (next_addr s) \<Longrightarrow> heap s p = None"
  by (fastforce simp: store_ok_def)

lemma store_ok_null: "store_ok s \<Longrightarrow> base p = None \<Longrightarrow> heap s p = None"
  by (fastforce simp: store_ok_def)

text \<open>Leaving the scope by an exception gives the block back: the store is as it was.\<close>

lemma release_restores:
  assumes "store_ok s" and "frame W (fresh_block n s) s2"
    and "\<forall>p\<in>W. base p = Some (next_addr s) \<or> p \<in> R"
    and "q \<notin> R"
  shows "heap (Deallocate (new_buffer s) s2) q = heap s q"
proof (cases "base q = Some (next_addr s)")
  case True
  then show ?thesis using assms(1) by (simp add: heap_Deallocate store_ok_fresh)
next
  case False
  then have "q \<notin> W" using assms(3,4) by blast
  then have "heap s2 q = heap (fresh_block n s) q" using assms(2) by (simp add: frame_def)
  then show ?thesis using False by (simp add: heap_Deallocate heap_fresh_block)
qed


section \<open>Well-formed vectors\<close>

lemma repr_iff:
  "repr this s xs \<longleftrightarrow>
     size_field (vectors s this) = length xs \<and>
     length xs \<le> capacity (data (vectors s this)) \<and>
     off (buffer (data (vectors s this))) = 0 \<and>
     (buffer (data (vectors s this)) = nullptr) = (capacity (data (vectors s this)) = 0) \<and>
     (\<forall>i<length xs. heap s (ptr_add (buffer (data (vectors s this))) (int i)) = Some (Live (xs ! i))) \<and>
     (\<forall>i. length xs \<le> i \<and> i < capacity (data (vectors s this)) \<longrightarrow>
          heap s (ptr_add (buffer (data (vectors s this))) (int i)) = Some Raw)"
  (is "?L \<longleftrightarrow> ?R")
proof
  assume l: ?L
  let ?b = "buffer (data (vectors s this))" and ?c = "capacity (data (vectors s this))"
  from l have eq: "map (\<lambda>i. heap s (ptr_add ?b (int i))) [0..<?c]
      = map (\<lambda>x. Some (Live x)) xs @ replicate (?c - length xs) (Some Raw)"
    and le: "length xs \<le> ?c"
    by (simp_all add: repr_def slots_def)
  have nth: "heap s (ptr_add ?b (int i)) = (map (\<lambda>x. Some (Live x)) xs @ replicate (?c - length xs) (Some Raw)) ! i"
    if "i < ?c" for i
    using arg_cong[OF eq, of "\<lambda>l. l ! i"] that by simp
  have "\<forall>i<length xs. heap s (ptr_add ?b (int i)) = Some (Live (xs ! i))"
    using nth le by (auto simp: nth_append)
  moreover have "\<forall>i. length xs \<le> i \<and> i < ?c \<longrightarrow> heap s (ptr_add ?b (int i)) = Some Raw"
    using nth by (auto simp: nth_append)
  ultimately show ?R using l by (simp add: repr_def)
next
  assume r: ?R
  let ?b = "buffer (data (vectors s this))" and ?c = "capacity (data (vectors s this))"
  have "map (\<lambda>i. heap s (ptr_add ?b (int i))) [0..<?c]
      = map (\<lambda>x. Some (Live x)) xs @ replicate (?c - length xs) (Some Raw)"
    using r by (intro nth_equalityI) (auto simp: nth_append)
  then show ?L using r by (simp add: repr_def slots_def)
qed

lemma repr_size: "repr this s xs \<Longrightarrow> size_field (vectors s this) = length xs"
  by (simp add: repr_def)

lemma repr_le: "repr this s xs \<Longrightarrow> length xs \<le> capacity (data (vectors s this))"
  by (simp add: repr_def)

lemma repr_live:
  "repr this s xs \<Longrightarrow> i < length xs \<Longrightarrow>
   heap s (ptr_add (buffer (data (vectors s this))) (int i)) = Some (Live (xs ! i))"
  by (simp add: repr_iff)

lemma repr_raw:
  "repr this s xs \<Longrightarrow> length xs \<le> i \<Longrightarrow> i < capacity (data (vectors s this)) \<Longrightarrow>
   heap s (ptr_add (buffer (data (vectors s this))) (int i)) = Some Raw"
  by (simp add: repr_iff)

lemma repr_base:
  assumes "repr this s xs" and "store_ok s" and "0 < capacity (data (vectors s this))"
  shows "\<exists>a. base (buffer (data (vectors s this))) = Some a \<and> a < next_addr s"
proof -
  have "heap s (ptr_add (buffer (data (vectors s this))) (int 0)) \<noteq> None"
    using assms(1,3) repr_live[OF assms(1), of 0] repr_raw[OF assms(1), of 0]
    by (cases "0 < length xs") auto
  then show ?thesis using assms(2) unfolding store_ok_def by fastforce
qed

lemma repr_base_neq:
  assumes "repr this s xs" and "store_ok s"
  shows "base (buffer (data (vectors s this))) \<noteq> Some (next_addr s)"
proof (cases "0 < capacity (data (vectors s this))")
  case True
  then show ?thesis using repr_base[OF assms True] by auto
next
  case False
  then have "buffer (data (vectors s this)) = nullptr" using assms(1) by (simp add: repr_def)
  then show ?thesis by (simp add: nullptr_def)
qed


lemma construct_Lvalue_thrown:
  assumes "construct T p (Lvalue q) s = (Inl (Thrown ex), s')"
  shows "\<exists>x e1. heap s q = Some (Live x) \<and> copy_ctor T x (env s) = (e1, Inl ex)"
  using assms
  by (auto simp: place_def split: option.splits slot.splits prod.splits sum.splits)


section \<open>The growth block\<close>

lemma seq_Inr_iff:
  "seq m f s = (Inr r, s') \<longleftrightarrow> (\<exists>q s1. m s = (Inr q, s1) \<and> f q s1 = (Inr r, s'))"
  by (auto simp: seq_def split: prod.splits sum.splits)

lemma construct_vectors: "construct T p i s = (r, s') \<Longrightarrow> vectors s' = vectors s"
  using construct_frame by (fastforce simp: frame_def)

lemma uninitialized_loop_vectors:
  "uninitialized_loop T mk result i n s = (r, s') \<Longrightarrow> vectors s' = vectors s"
  using uninitialized_loop_frame by (fastforce simp: frame_def)

lemma destroy_n_vectors: "destroy_n T first n s = (r, s') \<Longrightarrow> vectors s' = vectors s"
  using destroy_n_frame by (fastforce simp: frame_def)

lemma set_data_simps [simp]:
  "heap (set_data this d s) = heap s" "trace (set_data this d s) = trace s"
  "next_addr (set_data this d s) = next_addr s" "env (set_data this d s) = env s"
  "alloc_limit (set_data this d s) = alloc_limit s"
  "vectors (set_data this d s) = (vectors s)(this := (vectors s this)\<lparr>data := d\<rparr>)"
  by (simp_all add: set_data_def)

lemma set_size_simps [simp]:
  "heap (set_size this k s) = heap s" "trace (set_size this k s) = trace s"
  "next_addr (set_size this k s) = next_addr s" "env (set_size this k s) = env s"
  "alloc_limit (set_size this k s) = alloc_limit s"
  "vectors (set_size this k s) = (vectors s)(this := (vectors s this)\<lparr>size_field := k\<rparr>)"
  by (simp_all add: set_size_def)

lemma rawmem_update_all [simp]:
  "(d::rawmem)\<lparr>buffer := b, capacity := c\<rparr> = \<lparr>buffer = b, capacity = c\<rparr>"
  by (cases d) simp

lemma vector_update_all [simp]:
  "(v::vector)\<lparr>data := d, size_field := k\<rparr> = \<lparr>data = d, size_field = k\<rparr>"
  by (cases v) simp

lemma state_eqI:
  "heap a = heap b \<Longrightarrow> next_addr a = next_addr b \<Longrightarrow> alloc_limit a = alloc_limit b \<Longrightarrow>
   vectors a = vectors b \<Longrightarrow> env a = env b \<Longrightarrow> trace a = trace b \<Longrightarrow>
   state.more a = state.more b \<Longrightarrow> a = b"
  by simp

text \<open>An insertion that has to grow, in terms of the steps of its growth block.\<close>

lemma Emplace_growth:
  fixes s :: "('a, 'e) state" and T :: "('a, 'c, 'e) elem_type"
  assumes full: "capacity (data (vectors s this)) = size_field (vectors s this)"
    and pre: "ptr_le (buffer (data (vectors s this))) pos"
      "ptr_le pos (ptr_add (buffer (data (vectors s this))) (int (size_field (vectors s this))))"
  defines "n \<equiv> size_field (vectors s this)"
    and "old \<equiv> buffer (data (vectors s this))"
    and "p \<equiv> distance (buffer (data (vectors s this))) pos"
    and "m \<equiv> (if size_field (vectors s this) = 0 then 1 else size_field (vectors s this) * 2)"
  shows "Emplace T this pos args s =
     (if alloc_limit s < block_bytes T m then (Inl (Thrown bad_alloc), s)
      else case grow T old n p args (new_buffer s) (fresh_block (block_slots T m) s) of
             (Inl e, s2) \<Rightarrow> (Inl e, Deallocate (new_buffer s) s2)
           | (Inr u, sd) \<Rightarrow>
               (Inr (ptr_add (new_buffer s) (int p)),
                Deallocate old (sd\<lparr>vectors := (vectors s)
                   (this := \<lparr>data = \<lparr>buffer = new_buffer s, capacity = m\<rparr>, size_field = n + 1\<rparr>)\<rparr>)))"
proof -
  let ?c = "nothrow_move_constructible T \<or> \<not> copy_constructible T"
  have m0: "m \<noteq> 0" by (simp add: m_def)
  note E = Emplace_def[of T this pos args s, folded m_def]
  note defs = E with_new_data_unfold[OF m0] Vector_begin_def Vector_end_def
    Vector_cbegin_def GetAddress_def grow_def uninitialized_move_n_def uninitialized_copy_n_def
    relocation_def RawMemory_Swap_def RawMemory_dtor_def
  note base = full[unfolded n_def[symmetric]] pre[unfolded old_def[symmetric] n_def[symmetric]]
  have unf: "size_field (vectors s this) = n" "buffer (data (vectors s this)) = old"
    "capacity (data (vectors s this)) = n" "distance old pos = p"
    using full by (simp_all add: n_def old_def p_def)
  show ?thesis
  proof (cases "alloc_limit s < block_bytes T m")
    case True
    then show ?thesis using pre[unfolded unf] by (simp add: defs unf seq_def)
  next
    case lim: False
    let ?s0 = "fresh_block (block_slots T m) s" and ?new = "new_buffer s"
    obtain r1 sa where c: "construct T (ptr_add ?new (int p)) args ?s0 = (r1, sa)"
      by (cases "construct T (ptr_add ?new (int p)) args ?s0")
    show ?thesis
    proof (cases r1)
      case (Inl e)
      show ?thesis using pre[unfolded unf] lim c Inl by (simp add: defs unf seq_def)
    next
      case (Inr u1)
      have va: "vectors sa = vectors s" using construct_vectors[OF c] by simp
      obtain r2 sb where l1: "uninitialized_loop T (\<lambda>i. relocation T (ptr_add old (int i))) ?new 0 p sa = (r2, sb)"
        by (cases "uninitialized_loop T (\<lambda>i. relocation T (ptr_add old (int i))) ?new 0 p sa")
      have vb: "vectors sb = vectors s" using uninitialized_loop_vectors[OF l1] va by simp
      show ?thesis
      proof (cases r2)
        case (Inl e)
        show ?thesis using pre[unfolded unf] lim c Inr l1 Inl
          by (cases ?c) (simp_all add: defs unf seq_def va)
      next
        case (Inr u2)
        note r2 = Inr
        obtain r3 sc where l2: "uninitialized_loop T (\<lambda>i. relocation T (ptr_add old (int p + int i)))
            (ptr_add ?new (int p + 1)) 0 (n - p) sb = (r3, sc)"
          by (cases "uninitialized_loop T (\<lambda>i. relocation T (ptr_add old (int p + int i)))
            (ptr_add ?new (int p + 1)) 0 (n - p) sb")
        have vc: "vectors sc = vectors s" using uninitialized_loop_vectors[OF l2] vb by simp
        show ?thesis
        proof (cases r3)
          case (Inl e)
          show ?thesis using pre[unfolded unf] lim c \<open>r1 = Inr u1\<close> l1 r2 l2 Inl
            by (cases ?c) (simp_all add: defs unf seq_def va vb)
        next
          case (Inr u3)
          note r3 = Inr
          obtain r4 sd where d: "destroy_n T old n sc = (r4, sd)"
            by (cases "destroy_n T old n sc")
          have vd: "vectors sd = vectors s" using destroy_n_vectors[OF d] vc by simp
          show ?thesis
          proof (cases r4)
            case (Inl e)
            show ?thesis using pre[unfolded unf] lim c \<open>r1 = Inr u1\<close> l1 r2 l2 r3 d Inl
              by (cases ?c) (simp_all add: defs unf seq_def va vb vc)
          next
            case (Inr u4)
            show ?thesis using pre[unfolded unf] lim c \<open>r1 = Inr u1\<close> l1 r2 l2 r3 d Inr
              by (cases ?c) (simp_all add: defs unf seq_def va vb vc vd set_size_def set_data_def)
          qed
        qed
      qed
    qed
  qed
qed


lemma Deallocate_vectors_update [simp]:
  "(Deallocate b s)\<lparr>vectors := V\<rparr> = Deallocate b (s\<lparr>vectors := V\<rparr>)"
  by (simp add: Deallocate_def cong: if_cong)

lemma EmplaceBack_growth:
  fixes s :: "('a, 'e) state" and T :: "('a, 'c, 'e) elem_type"
  assumes full: "capacity (data (vectors s this)) = size_field (vectors s this)"
  defines "n \<equiv> size_field (vectors s this)"
    and "old \<equiv> buffer (data (vectors s this))"
    and "m \<equiv> (if size_field (vectors s this) = 0 then 1 else size_field (vectors s this) * 2)"
  shows "EmplaceBack T this args s =
     (if alloc_limit s < block_bytes T m then (Inl (Thrown bad_alloc), s)
      else case grow T old n n args (new_buffer s) (fresh_block (block_slots T m) s) of
             (Inl e, s2) \<Rightarrow> (Inl e, Deallocate (new_buffer s) s2)
           | (Inr u, sd) \<Rightarrow>
               (Inr (ptr_add (new_buffer s) (int n)),
                Deallocate old (sd\<lparr>vectors := (vectors s)
                   (this := \<lparr>data = \<lparr>buffer = new_buffer s, capacity = m\<rparr>, size_field = n + 1\<rparr>)\<rparr>)))"
proof -
  let ?c = "nothrow_move_constructible T \<or> \<not> copy_constructible T"
  have m0: "m \<noteq> 0" by (simp add: m_def)
  have nm: "n < m" by (simp add: m_def n_def)
  note E = EmplaceBack_def[of T this args s, folded m_def]
  note defs = E with_new_data_unfold[OF m0] GetAddress_def grow_def uninitialized_move_n_def
    uninitialized_copy_n_def relocation_def RawMemory_Swap_def RawMemory_dtor_def RawMemory_index_def
  have unf: "size_field (vectors s this) = n" "buffer (data (vectors s this)) = old"
    "capacity (data (vectors s this)) = n"
    using full by (simp_all add: n_def old_def)
  show ?thesis
  proof (cases "alloc_limit s < block_bytes T m")
    case True
    then show ?thesis by (simp add: defs unf seq_def)
  next
    case lim: False
    let ?s0 = "fresh_block (block_slots T m) s" and ?new = "new_buffer s"
    obtain r1 sa where c: "construct T (ptr_add ?new (int n)) args ?s0 = (r1, sa)"
      by (cases "construct T (ptr_add ?new (int n)) args ?s0")
    show ?thesis
    proof (cases r1)
      case (Inl e)
      show ?thesis using lim c Inl by (simp add: defs unf seq_def)
    next
      case (Inr u1)
      have va: "vectors sa = vectors s" using construct_vectors[OF c] by simp
      obtain r2 sb where l1: "uninitialized_loop T (\<lambda>i. relocation T (ptr_add old (int i))) ?new 0 n sa = (r2, sb)"
        by (cases "uninitialized_loop T (\<lambda>i. relocation T (ptr_add old (int i))) ?new 0 n sa")
      have vb: "vectors sb = vectors s" using uninitialized_loop_vectors[OF l1] va by simp
      show ?thesis
      proof (cases r2)
        case (Inl e)
        show ?thesis using lim c Inr l1 Inl
          by (cases ?c) (simp_all add: defs unf seq_def va)
      next
        case (Inr u2)
        note r2 = Inr
        obtain r4 sd where d: "destroy_n T old n sb = (r4, sd)"
          by (cases "destroy_n T old n sb")
        have vd: "vectors sd = vectors s" using destroy_n_vectors[OF d] vb by simp
        show ?thesis
        proof (cases r4)
          case (Inl e)
          show ?thesis using lim c \<open>r1 = Inr u1\<close> l1 r2 d Inl
            by (cases ?c) (simp_all add: defs unf seq_def va vb)
        next
          case (Inr u4)
          show ?thesis using lim c \<open>r1 = Inr u1\<close> l1 r2 d Inr nm
            by (cases ?c) (simp_all add: defs unf seq_def va vb vd set_size_def set_data_def)
        qed
      qed
    qed
  qed
qed

lemma PushBack_growth:
  fixes s :: "('a, 'e) state" and T :: "('a, 'c, 'e) elem_type"
  assumes full: "capacity (data (vectors s this)) = size_field (vectors s this)"
  defines "n \<equiv> size_field (vectors s this)"
    and "old \<equiv> buffer (data (vectors s this))"
    and "m \<equiv> (if size_field (vectors s this) = 0 then 1 else size_field (vectors s this) * 2)"
  shows "PushBack T this args s =
     (if alloc_limit s < block_bytes T m then (Inl (Thrown bad_alloc), s)
      else case grow T old n n args (new_buffer s) (fresh_block (block_slots T m) s) of
             (Inl e, s2) \<Rightarrow> (Inl e, Deallocate (new_buffer s) s2)
           | (Inr u, sd) \<Rightarrow>
               (Inr (),
                Deallocate old (sd\<lparr>vectors := (vectors s)
                   (this := \<lparr>data = \<lparr>buffer = new_buffer s, capacity = m\<rparr>, size_field = n + 1\<rparr>)\<rparr>)))"
proof -
  let ?c = "nothrow_move_constructible T \<or> \<not> copy_constructible T"
  have m0: "m \<noteq> 0" by (simp add: m_def)
  note E = PushBack_def[of T this args s, folded m_def]
  note defs = E with_new_data_unfold[OF m0] GetAddress_def grow_def uninitialized_move_n_def
    uninitialized_copy_n_def relocation_def RawMemory_Swap_def RawMemory_dtor_def
  have unf: "size_field (vectors s this) = n" "buffer (data (vectors s this)) = old"
    "capacity (data (vectors s this)) = n"
    using full by (simp_all add: n_def old_def)
  show ?thesis
  proof (cases "alloc_limit s < block_bytes T m")
    case True
    then show ?thesis by (simp add: defs unf seq_def)
  next
    case lim: False
    let ?s0 = "fresh_block (block_slots T m) s" and ?new = "new_buffer s"
    obtain r1 sa where c: "construct T (ptr_add ?new (int n)) args ?s0 = (r1, sa)"
      by (cases "construct T (ptr_add ?new (int n)) args ?s0")
    show ?thesis
    proof (cases r1)
      case (Inl e)
      show ?thesis using lim c Inl by (simp add: defs unf seq_def)
    next
      case (Inr u1)
      have va: "vectors sa = vectors s" using construct_vectors[OF c] by simp
      obtain r2 sb where l1: "uninitialized_loop T (\<lambda>i. relocation T (ptr_add old (int i))) ?new 0 n sa = (r2, sb)"
        by (cases "uninitialized_loop T (\<lambda>i. relocation T (ptr_add old (int i))) ?new 0 n sa")
      have vb: "vectors sb = vectors s" using uninitialized_loop_vectors[OF l1] va by simp
      show ?thesis
      proof (cases r2)
        case (Inl e)
        show ?thesis using lim c Inr l1 Inl
          by (cases ?c) (simp_all add: defs unf seq_def va)
      next
        case (Inr u2)
        note r2 = Inr
        obtain r4 sd where d: "destroy_n T old n sb = (r4, sd)"
          by (cases "destroy_n T old n sb")
        have vd: "vectors sd = vectors s" using destroy_n_vectors[OF d] vb by simp
        show ?thesis
        proof (cases r4)
          case (Inl e)
          show ?thesis using lim c \<open>r1 = Inr u1\<close> l1 r2 d Inl
            by (cases ?c) (simp_all add: defs unf seq_def va vb)
        next
          case (Inr u4)
          show ?thesis using lim c \<open>r1 = Inr u1\<close> l1 r2 d Inr
            by (cases ?c) (simp_all add: defs unf seq_def va vb vd set_size_def set_data_def)
        qed
      qed
    qed
  qed
qed

lemma EmplaceBack_full:
  assumes "capacity (data (vectors s this)) = size_field (vectors s this)"
  shows "EmplaceBack T this args s = Emplace T this (Vector_end this s) args s"
proof -
  have d: "distance (buffer (data (vectors s this))) (Vector_end this s) = size_field (vectors s this)"
    by (simp add: distance_def Vector_end_def GetAddress_def)
  have pre1: "ptr_le (buffer (data (vectors s this))) (Vector_end this s)"
    and pre2: "ptr_le (Vector_end this s) (ptr_add (buffer (data (vectors s this))) (int (size_field (vectors s this))))"
    by (simp_all add: ptr_le_def Vector_end_def GetAddress_def)
  show ?thesis
    unfolding Emplace_growth[OF assms pre1 pre2] EmplaceBack_growth[OF assms] d ..
qed

lemma PushBack_full:
  assumes "capacity (data (vectors s this)) = size_field (vectors s this)"
  shows "PushBack T this args s =
     (case Emplace T this (Vector_end this s) args s of
        (Inl e, s') \<Rightarrow> (Inl e, s') | (Inr it, s') \<Rightarrow> (Inr (), s'))"
proof -
  have d: "distance (buffer (data (vectors s this))) (Vector_end this s) = size_field (vectors s this)"
    by (simp add: distance_def Vector_end_def GetAddress_def)
  have pre1: "ptr_le (buffer (data (vectors s this))) (Vector_end this s)"
    and pre2: "ptr_le (Vector_end this s) (ptr_add (buffer (data (vectors s this))) (int (size_field (vectors s this))))"
    by (simp_all add: ptr_le_def Vector_end_def GetAddress_def)
  show ?thesis
    unfolding Emplace_growth[OF assms pre1 pre2] PushBack_growth[OF assms] d
    by (simp split: prod.splits sum.splits)
qed

lemma Reserve_growth:
  fixes s :: "('a, 'e) state" and T :: "('a, 'c, 'e) elem_type"
  assumes grows: "capacity (data (vectors s this)) < c"
  defines "n \<equiv> size_field (vectors s this)"
    and "old \<equiv> buffer (data (vectors s this))"
  shows "Reserve T this c s =
     (if alloc_limit s < block_bytes T c then (Inl (Thrown bad_alloc), s)
      else case relocate_all T old n (new_buffer s) (fresh_block (block_slots T c) s) of
             (Inl e, s2) \<Rightarrow> (Inl e, Deallocate (new_buffer s) s2)
           | (Inr u, sd) \<Rightarrow>
               (Inr (),
                Deallocate old (sd\<lparr>vectors := (vectors s)
                   (this := \<lparr>data = \<lparr>buffer = new_buffer s, capacity = c\<rparr>, size_field = n\<rparr>)\<rparr>)))"
proof -
  let ?c = "nothrow_move_constructible T \<or> \<not> copy_constructible T"
  have m0: "c \<noteq> 0" using grows by simp
  note defs = Reserve_def with_new_data_unfold[OF m0] GetAddress_def relocate_all_def
    uninitialized_move_n_def uninitialized_copy_n_def relocation_def RawMemory_Swap_def RawMemory_dtor_def
  have unf: "size_field (vectors s this) = n" "buffer (data (vectors s this)) = old"
    by (simp_all add: n_def old_def)
  have ng: "\<not> c \<le> capacity (data (vectors s this))" using grows by simp
  show ?thesis
  proof (cases "alloc_limit s < block_bytes T c")
    case True
    then show ?thesis using ng by (simp add: defs unf)
  next
    case lim: False
    let ?s0 = "fresh_block (block_slots T c) s" and ?new = "new_buffer s"
    obtain r2 sb where l1: "uninitialized_loop T (\<lambda>i. relocation T (ptr_add old (int i))) ?new 0 n ?s0 = (r2, sb)"
      by (cases "uninitialized_loop T (\<lambda>i. relocation T (ptr_add old (int i))) ?new 0 n ?s0")
    have vb: "vectors sb = vectors s" using uninitialized_loop_vectors[OF l1] by simp
    show ?thesis
    proof (cases r2)
      case (Inl e)
      show ?thesis using lim ng l1 Inl
        by (cases ?c) (simp_all add: defs unf seq_def)
    next
      case (Inr u2)
      note r2 = Inr
      obtain r4 sd where d: "destroy_n T old n sb = (r4, sd)"
        by (cases "destroy_n T old n sb")
      have vd: "vectors sd = vectors s" using destroy_n_vectors[OF d] vb by simp
      show ?thesis
      proof (cases r4)
        case (Inl e)
        show ?thesis using lim ng l1 r2 d Inl
          by (cases ?c) (simp_all add: defs unf seq_def vb)
      next
        case (Inr u4)
        have whole: "(vectors s this)\<lparr>data := \<lparr>buffer = new_buffer s, capacity = c\<rparr>\<rparr>
            = \<lparr>data = \<lparr>buffer = new_buffer s, capacity = c\<rparr>, size_field = n\<rparr>"
          by (cases "vectors s this") (simp add: n_def)
        show ?thesis using lim ng l1 r2 d Inr
          by (cases ?c) (simp_all add: defs unf seq_def vb vd set_data_def whole)
      qed
    qed
  qed
qed


lemma frame_trans_same: "frame W s s1 \<Longrightarrow> frame W s1 s2 \<Longrightarrow> frame W s s2"
  by (auto simp: frame_def)

lemma relocation_cases:
  obtains (move) "nothrow_move_constructible T \<or> \<not> copy_constructible T" and "relocation T = Rvalue"
    | (copy) "\<not> nothrow_move_constructible T" and "copy_constructible T" and "relocation T = Lvalue"
  by (cases "nothrow_move_constructible T \<or> \<not> copy_constructible T") (auto simp: relocation_def fun_eq_iff)

lemma relocation_src [simp]: "init_src (relocation T q) = {q}"
  by (simp add: relocation_def)

text \<open>A relocation loop of a safe element type writes to its destination only when it throws.\<close>

lemma relocation_loop_thrown:
  assumes "uninitialized_loop T (\<lambda>i. relocation T (f i)) result 0 k s = (Inl (Thrown ex), s')"
    and "relocation_safe T"
  shows "frame (span result k) s s' \<and> relocation T = Lvalue"
proof (cases rule: relocation_cases[of T])
  case move
  then have "moves_never_throw T" using assms(2) by (auto simp: relocation_safe_def)
  then have "uninitialized_loop T (\<lambda>i. Rvalue (f i)) result 0 k s \<noteq> (Inl (Thrown ex), s')"
    by (intro uninitialized_loop_not_thrown) auto
  with assms(1) move show ?thesis by simp
next
  case copy
  have "frame (span result (0 + k) \<union> (\<Union>j\<in>{0..<0 + k}. rvalue_src (relocation T (f j)))) s s'"
    using assms(1) by (rule uninitialized_loop_frame)
  then show ?thesis using copy by simp
qed

lemma grow_thrown:
  assumes "grow T old n p args new s0 = (Inl (Thrown ex), s2)" and "p \<le> n" and "relocation_safe T"
  shows "frame (span new (Suc n) \<union> rvalue_src args) s0 s2"
proof -
  let ?W = "span new (Suc n) \<union> rvalue_src args"
  from assms(1)[unfolded grow_def] show ?thesis
  proof (cases rule: seqE)
    case (fail e)
    then have "frame {} s0 s2" using construct_thrown_frame by blast
    then show ?thesis by (rule frame_mono) simp
  next
    case (ok u sa)
    have f1: "frame ?W s0 sa"
      by (rule frame_mono[OF construct_frame[OF ok(1)]]) (use assms(2) in auto)
    from ok(2) show ?thesis
    proof (cases rule: seqE)
      case (fail e)
      then have l: "uninitialized_loop T (\<lambda>i. relocation T (ptr_add old (int i))) new 0 p sa = (Inl (Thrown ex), s2)"
        by simp
      have "frame (span new p) sa s2" using relocation_loop_thrown[OF l assms(3)] by blast
      then have "frame ?W sa s2" by (rule frame_mono) (use assms(2) span_mono[of p "Suc n" new] in auto)
      with f1 show ?thesis by (rule frame_trans_same)
    next
      case (ok u2 sb)
      note ok2 = ok
      have f2: "frame ?W sa sb"
      proof -
        have "frame (span new (0 + p) \<union> (\<Union>j\<in>{0..<0 + p}. rvalue_src (relocation T (ptr_add old (int j))))) sa sb"
          using ok2(1) by (rule uninitialized_loop_frame)
        moreover from ok2(2) have "relocation T = Lvalue"
        proof (cases rule: seqE)
          case (fail e)
          then have l: "uninitialized_loop T (\<lambda>i. relocation T (ptr_add old (int p + int i)))
              (ptr_add new (int p + 1)) 0 (n - p) sb = (Inl (Thrown ex), s2)" by simp
          show ?thesis using relocation_loop_thrown[OF l assms(3)] by blast
        next
          case (ok u3 sc)
          then show ?thesis using destroy_n_not_thrown by blast
        qed
        ultimately have "frame (span new p) sa sb" by simp
        then show ?thesis by (rule frame_mono) (use assms(2) span_mono[of p "Suc n" new] in auto)
      qed
      from ok2(2) show ?thesis
      proof (cases rule: seqE)
        case (fail e)
        then have l: "uninitialized_loop T (\<lambda>i. relocation T (ptr_add old (int p + int i)))
              (ptr_add new (int p + 1)) 0 (n - p) sb = (Inl (Thrown ex), s2)" by simp
        have "frame (span (ptr_add new (int p + 1)) (n - p)) sb s2"
          using relocation_loop_thrown[OF l assms(3)] by blast
        then have "frame ?W sb s2" by (rule frame_mono) (use assms(2) in \<open>auto simp: span_def\<close>)
        with f1 f2 show ?thesis by (blast intro: frame_trans_same)
      next
        case (ok u3 sc)
        then show ?thesis using destroy_n_not_thrown by blast
      qed
    qed
  qed
qed

text \<open>The log of a successful growth block.\<close>

lemma grow_trace:
  assumes "grow T old n p args new s0 = (Inr u, sd)"
  shows "trace sd = trace s0
     @ [construct_event (ptr_add new (int p)) args]
     @ map (\<lambda>i. construct_event (ptr_add new (int i)) (relocation T (ptr_add old (int i)))) [0..<p]
     @ map (\<lambda>i. construct_event (ptr_add new (int p + 1 + int i)) (relocation T (ptr_add old (int p + int i)))) [0..<n - p]
     @ map (\<lambda>i. Destroy (ptr_add old (int i))) [0..<n]"
proof -
  from assms obtain ua sa ub sb uc sc where
    c: "construct T (ptr_add new (int p)) args s0 = (Inr ua, sa)"
    and l1: "uninitialized_loop T (\<lambda>i. relocation T (ptr_add old (int i))) new 0 p sa = (Inr ub, sb)"
    and l2: "uninitialized_loop T (\<lambda>i. relocation T (ptr_add old (int p + int i)))
              (ptr_add new (int p + 1)) 0 (n - p) sb = (Inr uc, sc)"
    and d: "destroy_n T old n sc = (Inr u, sd)"
    unfolding grow_def seq_Inr_iff by blast
  show ?thesis
    using construct_Inr(3)[OF c] uninitialized_loop_trace[OF l1] uninitialized_loop_trace[OF l2]
      destroy_n_Inr(3)[OF d]
    by simp
qed

lemma relocate_all_trace:
  assumes "relocate_all T old n new s0 = (Inr u, sd)"
  shows "trace sd = trace s0
     @ map (\<lambda>i. construct_event (ptr_add new (int i)) (relocation T (ptr_add old (int i)))) [0..<n]
     @ map (\<lambda>i. Destroy (ptr_add old (int i))) [0..<n]"
proof -
  from assms obtain ub sb where
    l1: "uninitialized_loop T (\<lambda>i. relocation T (ptr_add old (int i))) new 0 n s0 = (Inr ub, sb)"
    and d: "destroy_n T old n sb = (Inr u, sd)"
    unfolding relocate_all_def seq_Inr_iff by blast
  show ?thesis
    using uninitialized_loop_trace[OF l1] destroy_n_Inr(3)[OF d] by simp
qed

text \<open>When \<^verbatim>\<open>Reserve\<close> fails, every copy made so far has been destroyed again.\<close>

lemma relocate_all_thrown:
  assumes "relocate_all T old n new s0 = (Inl (Thrown ex), s2)" and "relocation_safe T"
    and "\<forall>j<n. heap s0 (ptr_add new (int j)) = Some Raw"
  shows "heap s2 = heap s0 \<and> vectors s2 = vectors s0 \<and>
         (\<exists>k<n. trace s2 = trace s0
            @ map (\<lambda>i. CopyConstruct (ptr_add new (int i)) (ptr_add old (int i))) [0..<k]
            @ map (\<lambda>i. Destroy (ptr_add new (int i))) [0..<k])"
proof -
  from assms(1)[unfolded relocate_all_def] show ?thesis
  proof (cases rule: seqE)
    case (fail e)
    then have l: "uninitialized_loop T (\<lambda>i. relocation T (ptr_add old (int i))) new 0 n s0 = (Inl (Thrown ex), s2)"
      by simp
    have lv: "relocation T = Lvalue" using relocation_loop_thrown[OF l assms(2)] by simp
    have "heap s2 = (\<lambda>q. if q \<in> span new 0 then Some Raw else heap s0 q) \<and>
         (\<exists>k. 0 \<le> k \<and> k < 0 + n \<and>
            trace s2 = trace s0 @ map (\<lambda>j. construct_event (ptr_add new (int j)) (relocation T (ptr_add old (int j)))) [0..<k]
                               @ map (\<lambda>j. Destroy (ptr_add new (int j))) [0..<k] \<and>
            (\<exists>sk sk'. frame (span new (0 + n)) s0 sk \<and>
               construct T (ptr_add new (int k)) (relocation T (ptr_add old (int k))) sk = (Inl (Thrown ex), sk')))"
      by (rule uninitialized_loop_rollback[OF l]) (use lv assms(3) in auto)
    then show ?thesis using uninitialized_loop_vectors[OF l] lv by auto
  next
    case (ok u sb)
    then show ?thesis using destroy_n_not_thrown by blast
  qed
qed


lemma Emplace_asserted:
  assumes "Emplace T this pos args s = (Inr it, s')"
  shows "ptr_le (buffer (data (vectors s this))) pos"
    and "ptr_le pos (ptr_add (buffer (data (vectors s this))) (int (size_field (vectors s this))))"
  using assms
  by (auto simp: Emplace_def Vector_begin_def Vector_end_def GetAddress_def split: if_split_asm)

lemma Emplace_growth_trace:
  assumes run: "Emplace T this pos args s = (Inr it, s')"
    and full: "capacity (data (vectors s this)) = size_field (vectors s this)"
  shows "trace s' = trace s
     @ [construct_event (ptr_add (new_buffer s) (int (distance (buffer (data (vectors s this))) pos))) args]
     @ map (\<lambda>i. construct_event (ptr_add (new_buffer s) (int i))
                  (relocation T (ptr_add (buffer (data (vectors s this))) (int i))))
           [0..<distance (buffer (data (vectors s this))) pos]
     @ map (\<lambda>i. construct_event
                  (ptr_add (new_buffer s) (int (distance (buffer (data (vectors s this))) pos) + 1 + int i))
                  (relocation T (ptr_add (buffer (data (vectors s this)))
                     (int (distance (buffer (data (vectors s this))) pos) + int i))))
           [0..<size_field (vectors s this) - distance (buffer (data (vectors s this))) pos]
     @ map (\<lambda>i. Destroy (ptr_add (buffer (data (vectors s this))) (int i))) [0..<size_field (vectors s this)]"
proof -
  note pre = Emplace_asserted[OF run]
  from run[unfolded Emplace_growth[OF full pre]]
  obtain u sd where g: "grow T (buffer (data (vectors s this))) (size_field (vectors s this))
      (distance (buffer (data (vectors s this))) pos) args (new_buffer s)
      (fresh_block (block_slots T (if size_field (vectors s this) = 0 then 1 else size_field (vectors s this) * 2)) s) = (Inr u, sd)"
    and s': "trace s' = trace sd"
    by (auto split: if_split_asm prod.splits sum.splits)
  show ?thesis using grow_trace[OF g] s' by simp
qed

lemma Reserve_trace:
  assumes run: "Reserve T this c s = (Inr u, s')"
    and grows: "capacity (data (vectors s this)) < c"
  shows "trace s' = trace s
     @ map (\<lambda>i. construct_event (ptr_add (new_buffer s) (int i))
                  (relocation T (ptr_add (buffer (data (vectors s this))) (int i))))
           [0..<size_field (vectors s this)]
     @ map (\<lambda>i. Destroy (ptr_add (buffer (data (vectors s this))) (int i))) [0..<size_field (vectors s this)]"
    and "vectors s' = (vectors s)(this := \<lparr>data = \<lparr>buffer = new_buffer s, capacity = c\<rparr>,
            size_field = size_field (vectors s this)\<rparr>)"
proof -
  from run[unfolded Reserve_growth[OF grows]]
  obtain u sd where g: "relocate_all T (buffer (data (vectors s this))) (size_field (vectors s this))
      (new_buffer s) (fresh_block (block_slots T c) s) = (Inr u, sd)"
    and s': "trace s' = trace sd"
    and v: "vectors s' = (vectors s)(this := \<lparr>data = \<lparr>buffer = new_buffer s, capacity = c\<rparr>,
            size_field = size_field (vectors s this)\<rparr>)"
    by (auto split: if_split_asm prod.splits sum.splits)
  show "trace s' = trace s
     @ map (\<lambda>i. construct_event (ptr_add (new_buffer s) (int i))
                  (relocation T (ptr_add (buffer (data (vectors s this))) (int i))))
           [0..<size_field (vectors s this)]
     @ map (\<lambda>i. Destroy (ptr_add (buffer (data (vectors s this))) (int i))) [0..<size_field (vectors s this)]"
    using relocate_all_trace[OF g] s' by simp
  show "vectors s' = (vectors s)(this := \<lparr>data = \<lparr>buffer = new_buffer s, capacity = c\<rparr>,
            size_field = size_field (vectors s this)\<rparr>)" by (rule v)
qed

lemma Resize_trace:
  assumes run: "Resize T this c s = (Inr u, s')"
    and grows: "capacity (data (vectors s this)) < c" and more: "size_field (vectors s this) < c"
  shows "trace s' = trace s
     @ map (\<lambda>i. construct_event (ptr_add (new_buffer s) (int i))
                  (relocation T (ptr_add (buffer (data (vectors s this))) (int i))))
           [0..<size_field (vectors s this)]
     @ map (\<lambda>i. Destroy (ptr_add (buffer (data (vectors s this))) (int i))) [0..<size_field (vectors s this)]
     @ map (\<lambda>i. ValueConstruct (ptr_add (new_buffer s) (int (size_field (vectors s this)) + int i)))
           [0..<c - size_field (vectors s this)]"
proof -
  from run more obtain u1 s1 u2 s2 where r: "Reserve T this c s = (Inr u1, s1)"
    and l: "uninitialized_value_construct_n T
              (ptr_add (GetAddress (data (vectors s1 this))) (int (size_field (vectors s1 this))))
              (c - size_field (vectors s1 this)) s1 = (Inr u2, s2)"
    and s': "s' = set_size this c s2"
    unfolding Resize_def by (auto simp: seq_Inr_iff)
  note t = Reserve_trace[OF r grows]
  have v1: "size_field (vectors s1 this) = size_field (vectors s this)"
    "GetAddress (data (vectors s1 this)) = new_buffer s"
    using t(2) by (simp_all add: GetAddress_def)
  note tl = uninitialized_loop_trace[OF l[unfolded v1 uninitialized_value_construct_n_def]]
  show ?thesis using tl t(1) s' by simp
qed


lemma relocation_mk:
  "\<forall>j. relocation T (ptr_add first (int j)) = Lvalue (ptr_add first (int j)) \<or>
       relocation T (ptr_add first (int j)) = Rvalue (ptr_add first (int j))"
  by (simp add: relocation_def)

lemma relocation_rvalue_src: "rvalue_src (relocation T q) \<subseteq> {q}"
  by (simp add: relocation_def)

lemma relocation_loop_Inr_frame:
  assumes "uninitialized_loop T (\<lambda>i. relocation T (ptr_add first (int i))) result 0 k s = (Inr u, s')"
  shows "frame (span result k \<union> span first k) s s'"
proof -
  have "frame (span (ptr_add result (int 0)) k \<union>
      (\<Union>j\<in>{0..<0 + k}. rvalue_src (relocation T (ptr_add first (int j))))) s s'"
    using assms by (rule uninitialized_loop_Inr_frame)
  then show ?thesis
    by (rule frame_mono) (auto simp: relocation_def split: if_split_asm)
qed

lemma relocate_all_values:
  assumes "relocate_all T old n new s0 = (Inr u, sd)" and "value_semantics T"
    and "base old \<noteq> base new"
  shows "\<forall>j<n. heap sd (ptr_add new (int j)) = heap s0 (ptr_add old (int j))"
    and "\<forall>q. q \<notin> span new n \<and> q \<notin> span old n \<longrightarrow> heap sd q = heap s0 q"
    and "vectors sd = vectors s0"
proof -
  from assms(1) obtain ub sb where
    l1: "uninitialized_loop T (\<lambda>i. relocation T (ptr_add old (int i))) new 0 n s0 = (Inr ub, sb)"
    and d: "destroy_n T old n sb = (Inr u, sd)"
    unfolding relocate_all_def seq_Inr_iff by blast
  note v = uninitialized_loop_values[OF l1 assms(2) relocation_mk assms(3)]
  note f = relocation_loop_Inr_frame[OF l1]
  note h = destroy_n_Inr(1)[OF d]
  show "\<forall>j<n. heap sd (ptr_add new (int j)) = heap s0 (ptr_add old (int j))"
    using v h assms(3) by (auto simp: span_def)
  show "\<forall>q. q \<notin> span new n \<and> q \<notin> span old n \<longrightarrow> heap sd q = heap s0 q"
    using h f by (auto simp: frame_def)
  show "vectors sd = vectors s0"
    using uninitialized_loop_vectors[OF l1] destroy_n_vectors[OF d] by simp
qed

lemma grow_values:
  assumes g: "grow T old n p args new s0 = (Inr u, sd)" and vs: "value_semantics T"
    and bn: "base old \<noteq> base new" and pn: "p \<le> n"
  obtains sa where "construct T (ptr_add new (int p)) args s0 = (Inr (), sa)"
    and "\<forall>j<p. heap sd (ptr_add new (int j)) = heap sa (ptr_add old (int j))"
    and "heap sd (ptr_add new (int p)) = heap sa (ptr_add new (int p))"
    and "\<forall>j. p \<le> j \<and> j < n \<longrightarrow> heap sd (ptr_add new (int j + 1)) = heap sa (ptr_add old (int j))"
    and "\<forall>q. q \<notin> span new (Suc n) \<and> q \<notin> span old n \<longrightarrow> heap sd q = heap sa q"
    and "\<forall>j<n. live sa (ptr_add old (int j))"
    and "vectors sd = vectors s0"
proof -
  from g obtain sa ub sb uc sc where
    c: "construct T (ptr_add new (int p)) args s0 = (Inr (), sa)"
    and l1: "uninitialized_loop T (\<lambda>i. relocation T (ptr_add old (int i))) new 0 p sa = (Inr ub, sb)"
    and l2: "uninitialized_loop T (\<lambda>i. relocation T (ptr_add old (int p + int i)))
              (ptr_add new (int p + 1)) 0 (n - p) sb = (Inr uc, sc)"
    and d: "destroy_n T old n sc = (Inr u, sd)"
    unfolding grow_def seq_Inr_iff by auto
  note v1 = uninitialized_loop_values[OF l1 vs relocation_mk bn]
  note f1 = relocation_loop_Inr_frame[OF l1]
  let ?o = "ptr_add old (int p)" and ?r = "ptr_add new (int p + 1)"
  have l2': "uninitialized_loop T (\<lambda>i. relocation T (ptr_add ?o (int i))) ?r 0 (n - p) sb = (Inr uc, sc)"
    using l2 by simp
  have bn': "base ?o \<noteq> base ?r" using bn by simp
  note v2 = uninitialized_loop_values[OF l2' vs relocation_mk bn']
  note f2 = relocation_loop_Inr_frame[OF l2']
  note h = destroy_n_Inr(1)[OF d]
  have sd_new: "heap sd q = heap sc q" if "base q = base new" for q
    using h that bn by (auto simp: span_def)
  have a: "\<forall>j<p. heap sd (ptr_add new (int j)) = heap sa (ptr_add old (int j))"
  proof (intro allI impI)
    fix j assume j: "j < p"
    have "heap sc (ptr_add new (int j)) = heap sb (ptr_add new (int j))"
      using j bn by (intro frame_heap[OF f2]) (auto simp: span_def)
    then show "heap sd (ptr_add new (int j)) = heap sa (ptr_add old (int j))"
      using v1 j sd_new[of "ptr_add new (int j)"] by simp
  qed
  have b: "heap sd (ptr_add new (int p)) = heap sa (ptr_add new (int p))"
  proof -
    have "heap sc (ptr_add new (int p)) = heap sb (ptr_add new (int p))"
      using bn by (intro frame_heap[OF f2]) (auto simp: span_def)
    moreover have "heap sb (ptr_add new (int p)) = heap sa (ptr_add new (int p))"
      using bn by (intro frame_heap[OF f1]) (auto simp: span_def)
    ultimately show ?thesis using sd_new[of "ptr_add new (int p)"] by simp
  qed
  have c3: "\<forall>j. p \<le> j \<and> j < n \<longrightarrow> heap sd (ptr_add new (int j + 1)) = heap sa (ptr_add old (int j))"
  proof (intro allI impI)
    fix j assume j: "p \<le> j \<and> j < n"
    then have k: "0 \<le> j - p \<and> j - p < 0 + (n - p)" by arith
    have e: "int p + int (j - p) = int j" using j by simp
    from v2[rule_format, OF k]
    have "heap sc (ptr_add new (int j + 1)) = heap sb (ptr_add old (int j))"
      using e by (simp add: add.commute add.left_commute)
    moreover have "heap sb (ptr_add old (int j)) = heap sa (ptr_add old (int j))"
      using j bn by (intro frame_heap[OF f1]) (auto simp: span_def)
    ultimately show "heap sd (ptr_add new (int j + 1)) = heap sa (ptr_add old (int j))"
      using sd_new[of "ptr_add new (int j + 1)"] by simp
  qed
  have e: "\<forall>q. q \<notin> span new (Suc n) \<and> q \<notin> span old n \<longrightarrow> heap sd q = heap sa q"
  proof (intro allI impI)
    fix q assume q: "q \<notin> span new (Suc n) \<and> q \<notin> span old n"
    have "heap sd q = heap sc q" using h q by simp
    moreover have "heap sc q = heap sb q"
      using q pn by (intro frame_heap[OF f2]) (auto simp: span_def)
    moreover have "heap sb q = heap sa q"
      using q pn by (intro frame_heap[OF f1]) (auto simp: span_def)
    ultimately show "heap sd q = heap sa q" by simp
  qed
  have l: "\<forall>j<n. live sa (ptr_add old (int j))"
  proof (intro allI impI)
    fix j assume j: "j < n"
    show "live sa (ptr_add old (int j))"
    proof (cases "j < p")
      case True
      then show ?thesis using v1 by simp
    next
      case False
      then have k: "0 \<le> j - p \<and> j - p < 0 + (n - p)" using j by simp
      have e: "int p + int (j - p) = int j" using False by simp
      from v2[rule_format, OF k] have "live sb (ptr_add old (int j))" using e by simp
      moreover have "heap sb (ptr_add old (int j)) = heap sa (ptr_add old (int j))"
        using False bn by (intro frame_heap[OF f1]) (auto simp: span_def)
      ultimately show ?thesis by (simp add: live_def)
    qed
  qed
  have vv: "vectors sd = vectors s0"
    using construct_vectors[OF c] uninitialized_loop_vectors[OF l1] uninitialized_loop_vectors[OF l2]
      destroy_n_vectors[OF d] by simp
  show ?thesis using that[OF c a b c3 e l vv] .
qed


lemma nth_inserted:
  assumes "p \<le> length ys" and "i \<le> length ys"
  shows "(take p ys @ x # drop p ys) ! i = (if i < p then ys ! i else if i = p then x else ys ! (i - 1))"
proof -
  have lt: "length (take p ys) = p" using assms(1) by simp
  show ?thesis
  proof (cases "i < p")
    case True
    then show ?thesis using lt by (simp add: nth_append)
  next
    case False
    show ?thesis
    proof (cases "i = p")
      case True
      then show ?thesis using lt by (simp add: nth_append)
    next
      case ne: False
      with False have gt: "p < i" by simp
      then obtain k where k: "i - p = Suc k" by (cases "i - p") auto
      then have "p + k = i - 1" using gt by simp
      then show ?thesis using False ne lt k assms by (simp add: nth_append)
    qed
  qed
qed

lemma heap_fresh_block_other:
  "base q \<noteq> Some (next_addr s) \<Longrightarrow> heap (fresh_block n s) q = heap s q"
  by (simp add: heap_fresh_block)

lemma Reserve_repr:
  assumes run: "Reserve T this c s = (Inr u, s')"
    and grows: "capacity (data (vectors s this)) < c"
    and r: "repr this s xs" and ok: "store_ok s" and vs: "value_semantics T"
    and fit: "fits T c"
  shows "repr this s' xs" and "capacity (data (vectors s' this)) = c"
    and "buffer (data (vectors s' this)) = new_buffer s"
    and "\<forall>j. j < c \<longrightarrow> length xs \<le> j \<longrightarrow> heap s' (ptr_add (new_buffer s) (int j)) = Some Raw"
proof -
  let ?old = "buffer (data (vectors s this))" and ?n = "size_field (vectors s this)"
  have bs [simp]: "block_slots T c = c" using fit by (rule fits_block)
  let ?new = "new_buffer s" and ?s0 = "fresh_block (block_slots T c) s"
  from run[unfolded Reserve_growth[OF grows]]
  obtain u sd where g: "relocate_all T ?old ?n ?new ?s0 = (Inr u, sd)"
    and s': "s' = Deallocate ?old (sd\<lparr>vectors := (vectors s)
                   (this := \<lparr>data = \<lparr>buffer = ?new, capacity = c\<rparr>, size_field = ?n\<rparr>)\<rparr>)"
    by (auto split: if_split_asm prod.splits sum.splits)
  have n: "?n = length xs" using r by (rule repr_size)
  have le: "length xs \<le> capacity (data (vectors s this))" using r by (rule repr_le)
  have bn: "base ?old \<noteq> base ?new" using repr_base_neq[OF r ok] by simp
  note v = relocate_all_values[OF g vs bn]
  have hs': "heap s' (ptr_add ?new (int j)) = heap sd (ptr_add ?new (int j))" for j
    using bn by (simp add: s' heap_Deallocate)
  have live: "heap s' (ptr_add ?new (int j)) = Some (Live (xs ! j))" if "j < length xs" for j
  proof -
    have "heap sd (ptr_add ?new (int j)) = heap ?s0 (ptr_add ?old (int j))"
      using v(1) that n by simp
    also have "\<dots> = heap s (ptr_add ?old (int j))"
      using bn by (simp add: heap_fresh_block_other)
    finally show ?thesis using repr_live[OF r that] hs' by simp
  qed
  have raw: "heap s' (ptr_add ?new (int j)) = Some Raw" if "length xs \<le> j" and "j < c" for j
  proof -
    have "heap sd (ptr_add ?new (int j)) = heap ?s0 (ptr_add ?new (int j))"
      using v(2) that n bn by (auto simp: span_def)
    then show ?thesis using that hs' by simp
  qed
  show "repr this s' xs"
    unfolding repr_iff using live raw n le grows
    by (simp add: s' nullptr_def new_buffer_def)
  show "capacity (data (vectors s' this)) = c" by (simp add: s')
  show "buffer (data (vectors s' this)) = new_buffer s" by (simp add: s')
  show "\<forall>j. j < c \<longrightarrow> length xs \<le> j \<longrightarrow> heap s' (ptr_add (new_buffer s) (int j)) = Some Raw"
    using raw by simp
qed

lemma Emplace_growth_repr:
  assumes run: "Emplace T this pos args s = (Inr it, s')"
    and full: "capacity (data (vectors s this)) = size_field (vectors s this)"
    and r: "repr this s xs" and ok: "store_ok s" and vs: "value_semantics T"
    and fit: "fits T (if size_field (vectors s this) = 0 then 1 else size_field (vectors s this) * 2)"
  defines "p \<equiv> distance (buffer (data (vectors s this))) pos"
  shows "\<exists>x ys. repr this s' (take p ys @ x # drop p ys) \<and> length ys = length xs \<and> p \<le> length xs \<and>
           (\<forall>j<length xs. ptr_add (buffer (data (vectors s this))) (int j) \<notin> rvalue_src args \<longrightarrow> ys ! j = xs ! j) \<and>
           (\<forall>q\<in>init_src args. heap s q = Some (Live x)) \<and>
           it = ptr_add (buffer (data (vectors s' this))) (int p) \<and>
           capacity (data (vectors s' this)) = (if length xs = 0 then 1 else length xs * 2)"
proof -
  let ?old = "buffer (data (vectors s this))" and ?n = "size_field (vectors s this)"
  define m where "m = (if size_field (vectors s this) = 0 then 1 else size_field (vectors s this) * 2)"
  have bs [simp]: "block_slots T m = m" using fits_block(2)[OF fit] by (simp add: m_def)
  let ?new = "new_buffer s" and ?s0 = "fresh_block (block_slots T m) s"
  note pre = Emplace_asserted[OF run]
  have n: "?n = length xs" using r by (rule repr_size)
  have pn: "p \<le> ?n" using pre by (auto simp: ptr_le_def distance_def p_def)
  have nm: "?n < m" by (simp add: m_def)
  from run[unfolded Emplace_growth[OF full pre], folded m_def]
  obtain u sd where g: "grow T ?old ?n p args ?new ?s0 = (Inr u, sd)"
    and s': "s' = Deallocate ?old (sd\<lparr>vectors := (vectors s)
                   (this := \<lparr>data = \<lparr>buffer = ?new, capacity = m\<rparr>, size_field = ?n + 1\<rparr>)\<rparr>)"
    and it: "it = ptr_add ?new (int p)"
    unfolding p_def by (auto split: if_split_asm prod.splits sum.splits)
  have bn: "base ?old \<noteq> base ?new" using repr_base_neq[OF r ok] by simp
  from g vs bn pn obtain sa where
    c: "construct T (ptr_add ?new (int p)) args ?s0 = (Inr (), sa)"
    and v1: "\<forall>j<p. heap sd (ptr_add ?new (int j)) = heap sa (ptr_add ?old (int j))"
    and v2: "heap sd (ptr_add ?new (int p)) = heap sa (ptr_add ?new (int p))"
    and v3: "\<forall>j. p \<le> j \<and> j < ?n \<longrightarrow> heap sd (ptr_add ?new (int j + 1)) = heap sa (ptr_add ?old (int j))"
    and v4: "\<forall>q. q \<notin> span ?new (Suc ?n) \<and> q \<notin> span ?old ?n \<longrightarrow> heap sd q = heap sa q"
    and v5: "\<forall>j<?n. live sa (ptr_add ?old (int j))"
    by (rule grow_values)
  from v5 have "\<forall>j<?n. \<exists>y. heap sa (ptr_add ?old (int j)) = Some (Live y)" by (simp add: live_def)
  then obtain ys where ly: "length ys = ?n"
    and ys: "\<forall>j<?n. heap sa (ptr_add ?old (int j)) = Some (Live (ys ! j))"
    unfolding Skolem_list_nth by blast
  from construct_Inr(1)[OF c] obtain x where x: "heap sa (ptr_add ?new (int p)) = Some (Live x)"
    by (auto simp: live_def)
  note fc = construct_frame[OF c]
  have src_old: "\<forall>q\<in>init_src args. base q \<noteq> base ?new \<and> heap s q = Some (Live x)"
  proof
    fix q assume q: "q \<in> init_src args"
    then have "args = Lvalue q \<or> args = Rvalue q" by (cases args) auto
    then have "heap sa (ptr_add ?new (int p)) = heap ?s0 q"
    proof
      assume a: "args = Lvalue q"
      show ?thesis using construct_Lvalue_Inr(1)[OF c[unfolded a] vs] .
    next
      assume a: "args = Rvalue q"
      show ?thesis using construct_Rvalue_Inr(1)[OF c[unfolded a] vs] .
    qed
    then have h0: "heap ?s0 q = Some (Live x)" using x by simp
    have "base q \<noteq> Some (next_addr s)"
    proof
      assume b: "base q = Some (next_addr s)"
      then have "heap s q = None" using ok by (rule store_ok_fresh[rotated])
      with b h0 show False by (simp add: heap_fresh_block split: if_split_asm)
    qed
    then show "base q \<noteq> base ?new \<and> heap s q = Some (Live x)"
      using h0 by (simp add: heap_fresh_block_other)
  qed
  have same: "ys ! j = xs ! j" if "j < length xs" and "ptr_add ?old (int j) \<notin> rvalue_src args" for j
  proof -
    have "heap sa (ptr_add ?old (int j)) = heap ?s0 (ptr_add ?old (int j))"
      using that bn by (intro frame_heap[OF fc]) (auto simp: ptr_eq_iff)
    also have "\<dots> = heap s (ptr_add ?old (int j))" using bn by (simp add: heap_fresh_block_other)
    finally show ?thesis using repr_live[OF r that(1)] ys that(1) n by simp
  qed
  have hs': "heap s' (ptr_add ?new j) = heap sd (ptr_add ?new j)" for j
    using bn by (simp add: s' heap_Deallocate)
  define zs where "zs = take p ys @ x # drop p ys"
  have lz: "length zs = ?n + 1" using ly pn by (simp add: zs_def)
  have live: "heap s' (ptr_add ?new (int i)) = Some (Live (zs ! i))" if "i < ?n + 1" for i
  proof -
    have nth: "zs ! i = (if i < p then ys ! i else if i = p then x else ys ! (i - 1))"
      unfolding zs_def using that pn ly by (intro nth_inserted) auto
    show ?thesis
    proof (cases "i < p")
      case True
      then show ?thesis using v1 ys pn nth hs' by simp
    next
      case False
      show ?thesis
      proof (cases "i = p")
        case True
        then show ?thesis using v2 x nth hs' by simp
      next
        case ne: False
        from False ne obtain k where ik: "i = Suc k" by (cases i) auto
        with False ne that have k: "p \<le> k \<and> k < ?n" by arith
        have pe: "ptr_add ?new (int i) = ptr_add ?new (int k + 1)" by (simp add: ik)
        have "heap sd (ptr_add ?new (int k + 1)) = Some (Live (ys ! k))"
          using v3[rule_format, OF k] ys k by simp
        moreover have "zs ! i = ys ! k" using nth False ne ik by simp
        ultimately show ?thesis unfolding hs' pe by simp
      qed
    qed
  qed
  have raw: "heap s' (ptr_add ?new (int i)) = Some Raw" if "?n + 1 \<le> i" and "i < m" for i
  proof -
    have "heap sd (ptr_add ?new (int i)) = heap sa (ptr_add ?new (int i))"
      using v4 that bn by (auto simp: span_def)
    also have "\<dots> = heap ?s0 (ptr_add ?new (int i))"
    proof (rule frame_heap[OF fc])
      have "ptr_add ?new (int i) \<notin> rvalue_src args"
        using src_old by (cases args) auto
      then show "ptr_add ?new (int i) \<notin> insert (ptr_add ?new (int p)) (rvalue_src args)"
        using that pn by simp
    qed
    finally show ?thesis using that hs' by simp
  qed
  have "repr this s' zs"
    unfolding repr_iff using live raw lz nm
    by (simp add: s' nullptr_def new_buffer_def)
  moreover have "it = ptr_add (buffer (data (vectors s' this))) (int p)" by (simp add: it s')
  moreover have "capacity (data (vectors s' this)) = (if length xs = 0 then 1 else length xs * 2)"
    using n by (simp add: s' m_def)
  ultimately show ?thesis using ly n pn same src_old unfolding zs_def
    by (intro exI[of _ x] exI[of _ ys]) simp
qed


lemma construct_keeps_live:
  assumes "construct T p i s = (r, s')" and "live s q"
  shows "live s' q"
  using assms
  by (cases i)
     (auto simp: place_def live_def split: option.splits slot.splits prod.splits sum.splits if_split_asm)

lemma frame_storage: "frame W s s' \<Longrightarrow> heap s p \<noteq> None \<Longrightarrow> heap s' p \<noteq> None"
  by (simp add: frame_def)

lemma frame_live: "frame W s s' \<Longrightarrow> live s p \<Longrightarrow> p \<notin> W \<Longrightarrow> live s' p"
  by (simp add: frame_def live_def)

text \<open>The growth block has defined behaviour when what it reads is live and not in the new block.\<close>

lemma grow_defined:
  assumes g: "grow T old n p args new s0 = (Inl e, s2)" and vs: "value_semantics T"
    and pn: "p \<le> n" and bn: "base old \<noteq> base new"
    and st: "\<forall>j<Suc n. heap s0 (ptr_add new (int j)) \<noteq> None"
    and lv: "\<forall>j<n. live s0 (ptr_add old (int j))"
    and src: "\<forall>q\<in>init_src args. live s0 q"
  shows "is_thrown e"
proof -
  let ?o = "ptr_add old (int p)" and ?r = "ptr_add new (int p + 1)"
  from g[unfolded grow_def] show ?thesis
  proof (cases rule: seqE)
    case (fail e1)
    then show ?thesis using construct_defined[of T _ args s0 e s2] st src pn by auto
  next
    case (ok u sa)
    note c = ok(1)
    have fa: "frame (insert (ptr_add new (int p)) (rvalue_src args)) s0 sa" using c by (rule construct_frame)
    have sta: "\<forall>j<Suc n. heap sa (ptr_add new (int j)) \<noteq> None"
      using st frame_storage[OF fa] by blast
    have lva: "\<forall>j<n. live sa (ptr_add old (int j))"
      using lv construct_keeps_live[OF c] by blast
    from ok(2) show ?thesis
    proof (cases rule: seqE)
      case (fail e1)
      then have l: "uninitialized_loop T (\<lambda>i. relocation T (ptr_add old (int i))) new 0 p sa = (Inl e, s2)"
        by simp
      show ?thesis
      proof (rule uninitialized_loop_defined[OF l])
        show "\<forall>j<0 + p. heap sa (ptr_add new (int j)) \<noteq> None" using sta pn by simp
        show "\<forall>j<0. live sa (ptr_add new (int j))" by simp
        show "\<forall>j. 0 \<le> j \<and> j < 0 + p \<longrightarrow>
            (\<forall>q\<in>init_src (relocation T (ptr_add old (int j))). live sa q \<and> q \<notin> span new (0 + p))"
          using lva pn bn by (auto simp: span_def)
      qed
    next
      case (ok u1 sb)
      note l1 = ok(1)
      note v1 = uninitialized_loop_values[OF l1 vs relocation_mk bn]
      note f1 = relocation_loop_Inr_frame[OF l1]
      have stb: "\<forall>j<Suc n. heap sb (ptr_add new (int j)) \<noteq> None"
        using sta frame_storage[OF f1] by blast
      have lvb: "\<forall>j<n. live sb (ptr_add old (int j))"
      proof (intro allI impI)
        fix j assume j: "j < n"
        show "live sb (ptr_add old (int j))"
        proof (cases "j < p")
          case True
          then show ?thesis using v1 by simp
        next
          case False
          show ?thesis
            by (rule frame_live[OF f1]) (use lva j False bn in \<open>auto simp: span_def\<close>)
        qed
      qed
      from ok(2) show ?thesis
      proof (cases rule: seqE)
        case (fail e1)
        then have l: "uninitialized_loop T (\<lambda>i. relocation T (ptr_add ?o (int i))) ?r 0 (n - p) sb = (Inl e, s2)"
          by simp
        show ?thesis
        proof (rule uninitialized_loop_defined[OF l])
          show "\<forall>j<0 + (n - p). heap sb (ptr_add ?r (int j)) \<noteq> None"
          proof (intro allI impI)
            fix j assume "j < 0 + (n - p)"
            then have "Suc (p + j) < Suc n" by arith
            with stb have "heap sb (ptr_add new (int (Suc (p + j)))) \<noteq> None" by blast
            then show "heap sb (ptr_add ?r (int j)) \<noteq> None" by (simp add: add.commute add.left_commute)
          qed
          show "\<forall>j<0. live sb (ptr_add ?r (int j))" by simp
          show "\<forall>j. 0 \<le> j \<and> j < 0 + (n - p) \<longrightarrow>
              (\<forall>q\<in>init_src (relocation T (ptr_add ?o (int j))). live sb q \<and> q \<notin> span ?r (0 + (n - p)))"
          proof (intro allI impI ballI)
            fix j q assume j: "0 \<le> j \<and> j < 0 + (n - p)" and q: "q \<in> init_src (relocation T (ptr_add ?o (int j)))"
            then have q': "q = ptr_add old (int (p + j))" by simp
            have "p + j < n" using j by arith
            then show "live sb q \<and> q \<notin> span ?r (0 + (n - p))"
              using lvb bn unfolding q' by (auto simp: span_def)
          qed
        qed
      next
        case (ok u2 sc)
        note l2 = ok(1)
        have l2': "uninitialized_loop T (\<lambda>i. relocation T (ptr_add ?o (int i))) ?r 0 (n - p) sb = (Inr u2, sc)"
          using l2 by simp
        have bn': "base ?o \<noteq> base ?r" using bn by simp
        note v2 = uninitialized_loop_values[OF l2' vs relocation_mk bn']
        note f2 = relocation_loop_Inr_frame[OF l2']
        have "\<forall>q\<in>span old n. live sc q"
        proof
          fix q assume "q \<in> span old n"
          then obtain j where j: "j < n" and q: "q = ptr_add old (int j)" unfolding in_span_iff by blast
          show "live sc q"
          proof (cases "j < p")
            case True
            show ?thesis unfolding q
              by (rule frame_live[OF f2]) (use lvb j True bn in \<open>auto simp: span_def\<close>)
          next
            case False
            then have k: "0 \<le> j - p \<and> j - p < 0 + (n - p)" using j by arith
            have e: "int p + int (j - p) = int j" using False by simp
            from v2[rule_format, OF k] show ?thesis unfolding q using e by simp
          qed
        qed
        then obtain s3 where "destroy_n T old n sc = (Inr (), s3)" using destroy_n_live by blast
        with ok(2) show ?thesis by simp
      qed
    qed
  qed
qed

lemma Emplace_growth_defined:
  assumes run: "Emplace T this pos args s = (Inl e, s')"
    and full: "capacity (data (vectors s this)) = size_field (vectors s this)"
    and r: "repr this s xs" and ok: "store_ok s" and vs: "value_semantics T"
    and pre: "ptr_le (buffer (data (vectors s this))) pos"
      "ptr_le pos (ptr_add (buffer (data (vectors s this))) (int (size_field (vectors s this))))"
    and src: "\<forall>q\<in>init_src args. live s q"
    and fit: "fits T (if size_field (vectors s this) = 0 then 1 else size_field (vectors s this) * 2)"
  shows "is_thrown e"
proof -
  let ?old = "buffer (data (vectors s this))" and ?n = "size_field (vectors s this)"
  define m where "m = (if size_field (vectors s this) = 0 then 1 else size_field (vectors s this) * 2)"
  have bs [simp]: "block_slots T m = m" using fits_block(2)[OF fit] by (simp add: m_def)
  define p where "p = distance (buffer (data (vectors s this))) pos"
  let ?new = "new_buffer s" and ?s0 = "fresh_block (block_slots T m) s"
  have n: "?n = length xs" using r by (rule repr_size)
  have pn: "p \<le> ?n" using pre by (auto simp: ptr_le_def distance_def p_def)
  have nm: "?n < m" by (simp add: m_def)
  have bn: "base ?old \<noteq> base ?new" using repr_base_neq[OF r ok] by simp
  note E = run[unfolded Emplace_growth[OF full pre], folded m_def p_def]
  show ?thesis
  proof (cases "alloc_limit s < block_bytes T m")
    case True
    with E show ?thesis by (auto simp: is_thrown_def)
  next
    case False
    obtain rg sg where g: "grow T ?old ?n p args ?new ?s0 = (rg, sg)"
      by (cases "grow T ?old ?n p args ?new ?s0")
    with E False have rg: "rg = Inl e" by (cases rg) auto
    show ?thesis
    proof (rule grow_defined[OF g[unfolded rg] vs pn bn])
      show "\<forall>j<Suc ?n. heap ?s0 (ptr_add ?new (int j)) \<noteq> None" using nm by simp
      show "\<forall>j<?n. live ?s0 (ptr_add ?old (int j))"
        using repr_live[OF r] bn n by (simp add: live_def heap_fresh_block_other)
      show "\<forall>q\<in>init_src args. live ?s0 q"
      proof
        fix q assume "q \<in> init_src args"
        with src have l: "live s q" by blast
        then have "base q \<noteq> Some (next_addr s)"
          using store_ok_fresh[OF ok, of q] by (auto simp: live_def)
        with l show "live ?s0 q" by (simp add: live_def heap_fresh_block_other)
      qed
    qed
  qed
qed




lemma value_semantics_IntT: "value_semantics IntT"
  by (simp add: value_semantics_def IntT_def)

lemma repr_two_vectors: "repr 0 two_vectors [1, 2]"
  by (simp add: repr_def slots_def two_vectors_def ptr_add_def nullptr_def eval_nat_numeral)

lemma store_ok_two_vectors: "store_ok two_vectors"
  by (auto simp: store_ok_def two_vectors_def split: if_splits)


section \<open>Copying a range that contains a throwing element\<close>

lemma copy_loop_throws:
  assumes "first_copy_throw T (drop i xs) (env s) = Some (k, ex)"
    and "i + n = length xs"
    and "\<forall>j<length xs. heap s (ptr_add first (int j)) = Some (Live (xs ! j))"
    and "\<forall>j. i \<le> j \<and> j < length xs \<longrightarrow> heap s (ptr_add result (int j)) = Some Raw"
    and "\<forall>j<i. live s (ptr_add result (int j))"
    and "base first \<noteq> base result"
  shows "\<exists>s'. uninitialized_loop T (\<lambda>j. Lvalue (ptr_add first (int j))) result i n s = (Inl (Thrown ex), s')
          \<and> i + k < length xs
          \<and> trace s' = trace s
              @ map (\<lambda>j. CopyConstruct (ptr_add result (int j)) (ptr_add first (int j))) [i..<i + k]
              @ map (\<lambda>j. Destroy (ptr_add result (int j))) [0..<i + k]"
  using assms(1-5)
proof (induction n arbitrary: i s k)
  case 0
  then show ?case by simp
next
  case (Suc n)
  let ?mk = "\<lambda>j. Lvalue (ptr_add first (int j)) :: 'b init"
  have i: "i < length xs" using Suc.prems(2) by simp
  have dr: "drop i xs = xs ! i # drop (Suc i) xs" using i by (simp add: Cons_nth_drop_Suc)
  have hx: "heap s (ptr_add first (int i)) = Some (Live (xs ! i))" using Suc.prems(3) i by simp
  have hr: "heap s (ptr_add result (int i)) = Some Raw" using Suc.prems(4) i by simp
  obtain e1 r where cc: "copy_ctor T (xs ! i) (env s) = (e1, r)"
    by (cases "copy_ctor T (xs ! i) (env s)")
  show ?case
  proof (cases r)
    case (Inl ex0)
    from Suc.prems(1) have k: "k = 0" and ex: "ex = ex0"
      unfolding dr using cc Inl by simp_all
    let ?s1 = "s\<lparr>env := e1\<rparr>"
    have c: "construct T (ptr_add result (int i)) (?mk i) s = (Inl (Thrown ex), ?s1)"
      using hx cc Inl ex by simp
    have "\<forall>q\<in>span result i. live ?s1 q"
      using Suc.prems(5) by (auto simp: in_span_iff live_def)
    then obtain s2 where d: "destroy_n T result i ?s1 = (Inr (), s2)"
      using destroy_n_live by blast
    have t: "trace s2 = trace s @ map (\<lambda>j. Destroy (ptr_add result (int j))) [0..<i]"
      using destroy_n_Inr(3)[OF d] by simp
    have "uninitialized_loop T ?mk result i (Suc n) s = (Inl (Thrown ex), s2)"
      using c d by (simp add: catch_all_def)
    then show ?thesis using t i k by simp
  next
    case (Inr y)
    let ?s1 = "s\<lparr>env := e1, heap := (heap s)(ptr_add result (int i) \<mapsto> Live y),
                  trace := trace s @ [CopyConstruct (ptr_add result (int i)) (ptr_add first (int i))]\<rparr>"
    have c: "construct T (ptr_add result (int i)) (?mk i) s = (Inr (), ?s1)"
      using hx hr cc Inr by (simp add: place_def)
    from Suc.prems(1) obtain k' where k: "k = Suc k'"
      and f: "first_copy_throw T (drop (Suc i) xs) e1 = Some (k', ex)"
      unfolding dr using cc Inr by (auto split: option.splits)
    have ne: "ptr_add first (int j) \<noteq> ptr_add result (int i)" for j
      using assms(6) by (auto simp: ptr_add_def)
    have "\<exists>s'. uninitialized_loop T ?mk result (Suc i) n ?s1 = (Inl (Thrown ex), s')
          \<and> Suc i + k' < length xs
          \<and> trace s' = trace ?s1
              @ map (\<lambda>j. CopyConstruct (ptr_add result (int j)) (ptr_add first (int j))) [Suc i..<Suc i + k']
              @ map (\<lambda>j. Destroy (ptr_add result (int j))) [0..<Suc i + k']"
    proof (rule Suc.IH)
      show "first_copy_throw T (drop (Suc i) xs) (env ?s1) = Some (k', ex)" using f by simp
      show "Suc i + n = length xs" using Suc.prems(2) by simp
      show "\<forall>j<length xs. heap ?s1 (ptr_add first (int j)) = Some (Live (xs ! j))"
        using Suc.prems(3) ne by simp
      show "\<forall>j. Suc i \<le> j \<and> j < length xs \<longrightarrow> heap ?s1 (ptr_add result (int j)) = Some Raw"
        using Suc.prems(4) by (auto simp: ptr_add_eq_iff)
      show "\<forall>j<Suc i. live ?s1 (ptr_add result (int j))"
        using Suc.prems(5) by (auto simp: live_def less_Suc_eq ptr_add_eq_iff)
    qed
    then obtain s' where l: "uninitialized_loop T ?mk result (Suc i) n ?s1 = (Inl (Thrown ex), s')"
      and b: "Suc i + k' < length xs"
      and t: "trace s' = trace ?s1
              @ map (\<lambda>j. CopyConstruct (ptr_add result (int j)) (ptr_add first (int j))) [Suc i..<Suc i + k']
              @ map (\<lambda>j. Destroy (ptr_add result (int j))) [0..<Suc i + k']"
      by blast
    have "uninitialized_loop T ?mk result i (Suc n) s = (Inl (Thrown ex), s')"
      using c l by simp
    moreover have "[i..<i + k] = i # [Suc i..<Suc i + k']" using k by (simp add: upt_conv_Cons)
    ultimately show ?thesis using b t k by simp
  qed
qed

lemma copy_loop_succeeds:
  assumes "first_copy_throw T (drop i xs) (env s) = None"
    and "i + n = length xs"
    and "\<forall>j<length xs. heap s (ptr_add first (int j)) = Some (Live (xs ! j))"
    and "\<forall>j. i \<le> j \<and> j < length xs \<longrightarrow> heap s (ptr_add result (int j)) = Some Raw"
    and "base first \<noteq> base result"
  shows "\<exists>s'. uninitialized_loop T (\<lambda>j. Lvalue (ptr_add first (int j))) result i n s = (Inr (), s')"
  using assms(1-4)
proof (induction n arbitrary: i s)
  case 0
  then show ?case by simp
next
  case (Suc n)
  let ?mk = "\<lambda>j. Lvalue (ptr_add first (int j)) :: 'b init"
  have i: "i < length xs" using Suc.prems(2) by simp
  have dr: "drop i xs = xs ! i # drop (Suc i) xs" using i by (simp add: Cons_nth_drop_Suc)
  have hx: "heap s (ptr_add first (int i)) = Some (Live (xs ! i))" using Suc.prems(3) i by simp
  have hr: "heap s (ptr_add result (int i)) = Some Raw" using Suc.prems(4) i by simp
  obtain e1 r where cc: "copy_ctor T (xs ! i) (env s) = (e1, r)"
    by (cases "copy_ctor T (xs ! i) (env s)")
  from Suc.prems(1) obtain y where r: "r = Inr y"
    and f: "first_copy_throw T (drop (Suc i) xs) e1 = None"
    unfolding dr using cc by (cases r) (auto split: option.splits)
  let ?s1 = "s\<lparr>env := e1, heap := (heap s)(ptr_add result (int i) \<mapsto> Live y),
                trace := trace s @ [CopyConstruct (ptr_add result (int i)) (ptr_add first (int i))]\<rparr>"
  have c: "construct T (ptr_add result (int i)) (?mk i) s = (Inr (), ?s1)"
    using hx hr cc r by (simp add: place_def)
  have ne: "ptr_add first (int j) \<noteq> ptr_add result (int i)" for j
    using assms(5) by (auto simp: ptr_add_def)
  have "\<exists>s'. uninitialized_loop T ?mk result (Suc i) n ?s1 = (Inr (), s')"
  proof (rule Suc.IH)
    show "first_copy_throw T (drop (Suc i) xs) (env ?s1) = None" using f by simp
    show "Suc i + n = length xs" using Suc.prems(2) by simp
    show "\<forall>j<length xs. heap ?s1 (ptr_add first (int j)) = Some (Live (xs ! j))"
      using Suc.prems(3) ne by simp
    show "\<forall>j. Suc i \<le> j \<and> j < length xs \<longrightarrow> heap ?s1 (ptr_add result (int j)) = Some Raw"
      using Suc.prems(4) by (auto simp: ptr_add_eq_iff)
  qed
  then show ?case using c by simp
qed

lemma copy_ctor_failure:
  assumes "repr other s xs" and "store_ok s" and "this \<noteq> other"
    and "Vector_copy_ctor T this other s = (Inl e, s')"
    and fit: "fits T (length xs)"
  shows "\<exists>ex k. e = Thrown ex \<and> k < length xs \<and> heap s' = heap s \<and>
           trace s' = trace s
             @ map (\<lambda>j. CopyConstruct (ptr_add (new_buffer s) (int j)) (ptr_add (Vector_begin other s) (int j))) [0..<k]
             @ map (\<lambda>j. Destroy (ptr_add (new_buffer s) (int j))) [0..<k] \<and>
           (ex = bad_alloc \<and> k = 0 \<or> (\<exists>e0 e1. copy_ctor T (xs ! k) e0 = (e1, Inl ex)))"
proof -
  let ?n = "length xs"
  let ?old = "buffer (data (vectors s other))"
  have n: "size_field (vectors s other) = ?n" using assms(1) by (rule repr_size)
  have bs [simp]: "block_slots T ?n = ?n" using fit by (rule fits_block)
  obtain ra sa where al: "Allocate T ?n s = (ra, sa)" by (cases "Allocate T ?n s")
  from al show ?thesis
  proof (cases rule: Allocate_cases)
    case zero
    with al assms(4) n show ?thesis
      by (simp add: Vector_copy_ctor_def RawMemory_ctor_def uninitialized_copy_n_def)
  next
    case no_memory
    with al assms(4) n have "e = Thrown bad_alloc" "s' = s"
      by (simp_all add: Vector_copy_ctor_def RawMemory_ctor_def)
    with no_memory(1) show ?thesis by (intro exI[of _ bad_alloc] exI[of _ 0]) simp
  next
    case block
    let ?new = "new_buffer s"
    let ?d = "\<lparr>buffer = ?new, capacity = ?n\<rparr>"
    let ?s2 = "(fresh_block (block_slots T ?n) s)\<lparr>vectors := (vectors s)(this := \<lparr>data = ?d, size_field = ?n\<rparr>)\<rparr>"
    let ?mk = "\<lambda>i. Lvalue (ptr_add ?old (int i)) :: 'c init"
    obtain rb s3 where lp: "uninitialized_loop T ?mk ?new 0 ?n ?s2 = (rb, s3)"
      by (cases "uninitialized_loop T ?mk ?new 0 ?n ?s2")
    have unfold: "Vector_copy_ctor T this other s =
        (case rb of Inl e \<Rightarrow> (Inl e, Deallocate ?new s3) | Inr u \<Rightarrow> (Inr (), s3))"
      using al block n assms(3) lp
      by (simp add: Vector_copy_ctor_def RawMemory_ctor_def uninitialized_copy_n_def GetAddress_def
            RawMemory_dtor_def Let_def split: sum.splits)
    with assms(4) have rb: "rb = Inl e" and s': "s' = Deallocate ?new s3"
      by (auto split: sum.splits)
    have old_base: "base ?old \<noteq> Some (next_addr s)" using assms(1,2) by (rule repr_base_neq)
    have src: "heap ?s2 (ptr_add ?old (int j)) = Some (Live (xs ! j))" if "j < ?n" for j
      using repr_live[OF assms(1) that] old_base by (simp add: heap_fresh_block)
    have dst: "heap ?s2 (ptr_add ?new (int j)) = Some Raw" if "j < ?n" for j
      using that by (simp add: heap_fresh_block)
    have "is_thrown e"
    proof (rule uninitialized_loop_defined[OF lp[unfolded rb]])
      show "\<forall>j<0 + ?n. heap ?s2 (ptr_add ?new (int j)) \<noteq> None" using dst by simp
      show "\<forall>j<0. live ?s2 (ptr_add ?new (int j))" by simp
      show "\<forall>j. 0 \<le> j \<and> j < 0 + ?n \<longrightarrow>
              (\<forall>q\<in>init_src (?mk j). live ?s2 q \<and> q \<notin> span ?new (0 + ?n))"
        using src old_base by (auto simp: live_def span_def)
    qed
    then obtain ex where ex: "e = Thrown ex" by (auto simp: is_thrown_def split: error.splits)
    have "heap s3 = (\<lambda>q. if q \<in> span ?new 0 then Some Raw else heap ?s2 q) \<and>
         (\<exists>k. 0 \<le> k \<and> k < 0 + ?n \<and>
            trace s3 = trace ?s2 @ map (\<lambda>j. construct_event (ptr_add ?new (int j)) (?mk j)) [0..<k]
                               @ map (\<lambda>j. Destroy (ptr_add ?new (int j))) [0..<k] \<and>
            (\<exists>sk sk'. frame (span ?new (0 + ?n)) ?s2 sk \<and>
               construct T (ptr_add ?new (int k)) (?mk k) sk = (Inl (Thrown ex), sk')))"
    proof (rule uninitialized_loop_rollback[OF lp[unfolded rb ex]])
      show "\<forall>j. rvalue_src (?mk j) = {}" by simp
      show "\<forall>j. 0 \<le> j \<and> j < 0 + ?n \<longrightarrow> heap ?s2 (ptr_add ?new (int j)) = Some Raw"
        using dst by simp
    qed
    then obtain k sk sk' where h3: "heap s3 = heap ?s2" and k: "k < ?n"
      and tr: "trace s3 = trace s @ map (\<lambda>j. CopyConstruct (ptr_add ?new (int j)) (ptr_add ?old (int j))) [0..<k]
                               @ map (\<lambda>j. Destroy (ptr_add ?new (int j))) [0..<k]"
      and fk: "frame (span ?new ?n) ?s2 sk"
      and ck: "construct T (ptr_add ?new (int k)) (Lvalue (ptr_add ?old (int k))) sk = (Inl (Thrown ex), sk')"
      by auto
    have "heap sk (ptr_add ?old (int k)) = heap ?s2 (ptr_add ?old (int k))"
      using old_base by (intro frame_heap[OF fk]) (auto simp: span_def)
    with src[OF k] construct_Lvalue_thrown[OF ck]
    have orig: "\<exists>e0 e1. copy_ctor T (xs ! k) e0 = (e1, Inl ex)" by auto
    have "heap s' = heap s"
    proof
      fix q
      show "heap s' q = heap s q"
        using store_ok_fresh[OF assms(2), of q]
        by (simp add: s' heap_Deallocate h3 heap_fresh_block)
    qed
    moreover have "trace s' = trace s
             @ map (\<lambda>j. CopyConstruct (ptr_add ?new (int j)) (ptr_add (Vector_begin other s) (int j))) [0..<k]
             @ map (\<lambda>j. Destroy (ptr_add ?new (int j))) [0..<k]"
      using tr by (simp add: s' Vector_begin_def GetAddress_def)
    ultimately show ?thesis using ex k orig by blast
  qed
qed


section \<open>Element types that do not throw\<close>

lemma nothrowD:
  assumes "nothrow T"
  shows "value_ctor T e \<noteq> (e', Inl ex)" and "args_ctor T c e \<noteq> (e', Inl ex)"
    and "copy_ctor T x e \<noteq> (e', Inl ex)" and "move_ctor T x e \<noteq> (e', Inl ex)"
    and "copy_assign T d x e \<noteq> (e', Inl ex)" and "move_assign T d x e \<noteq> (e', Inl ex)"
proof -
  from assms have a: "\<exists>e' y. value_ctor T e = (e', Inr y)"
    "\<exists>e' y. args_ctor T c e = (e', Inr y)"
    "\<exists>e' y. copy_ctor T x e = (e', Inr y)"
    "\<exists>e' y. move_ctor T x e = (e', Inr y)"
    "\<exists>e' y. copy_assign T d x e = (e', Inr y)"
    "\<exists>e' y. move_assign T d x e = (e', Inr y)"
    unfolding nothrow_def by blast+
  from a(1) show "value_ctor T e \<noteq> (e', Inl ex)" by auto
  from a(2) show "args_ctor T c e \<noteq> (e', Inl ex)" by auto
  from a(3) show "copy_ctor T x e \<noteq> (e', Inl ex)" by auto
  from a(4) show "move_ctor T x e \<noteq> (e', Inl ex)" by auto
  from a(5) show "copy_assign T d x e \<noteq> (e', Inl ex)" by auto
  from a(6) show "move_assign T d x e \<noteq> (e', Inl ex)" by auto
qed

lemma construct_nothrow:
  assumes "nothrow T"
  shows "construct T p i s \<noteq> (Inl (Thrown ex), s')"
  using nothrowD(1-4)[OF assms]
  by (cases i) (auto simp: place_def split: option.splits slot.splits prod.splits sum.splits)

lemma uninitialized_loop_nothrow:
  assumes "nothrow T"
  shows "uninitialized_loop T mk result i n s \<noteq> (Inl (Thrown ex), s')"
proof (induction n arbitrary: i s)
  case 0
  then show ?case by simp
next
  case (Suc n)
  obtain r1 s1 where c: "construct T (ptr_add result (int i)) (mk i) s = (r1, s1)"
    by (cases "construct T (ptr_add result (int i)) (mk i) s")
  have nt: "r1 \<noteq> Inl (Thrown ex')" for ex'
    using c construct_nothrow[OF assms] by auto
  show ?case
  proof (cases r1)
    case (Inl e)
    with nt have "\<not> is_thrown e" by (auto simp: is_thrown_def split: error.splits)
    with c Inl show ?thesis
      by (auto simp: catch_all_def is_thrown_def split: error.splits)
  next
    case (Inr v)
    with c Suc.IH show ?thesis by simp
  qed
qed

lemma grow_nothrow:
  assumes "nothrow T"
  shows "grow T old n p args new s \<noteq> (Inl (Thrown ex), s')"
proof
  assume "grow T old n p args new s = (Inl (Thrown ex), s')"
  from this[unfolded grow_def] show False
  proof (cases rule: seqE)
    case (fail e)
    then show False using construct_nothrow[OF assms] by auto
  next
    case (ok q s1)
    from ok(2) show False
    proof (cases rule: seqE)
      case (fail e)
      then show False using uninitialized_loop_nothrow[OF assms] by auto
    next
      case (ok q2 s2)
      from ok(2) show False
      proof (cases rule: seqE)
        case (fail e)
        then show False using uninitialized_loop_nothrow[OF assms] by auto
      next
        case (ok q3 s3)
        then show False using destroy_n_not_thrown[of T old n s3 ex s'] by simp
      qed
    qed
  qed
qed

lemma Emplace_growth_succeeds:
  assumes full: "capacity (data (vectors s this)) = size_field (vectors s this)"
    and r: "repr this s xs" and ok: "store_ok s" and vs: "value_semantics T"
    and pre: "ptr_le (buffer (data (vectors s this))) pos"
      "ptr_le pos (ptr_add (buffer (data (vectors s this))) (int (size_field (vectors s this))))"
    and src: "\<forall>q\<in>init_src args. live s q"
    and fit: "fits T (if size_field (vectors s this) = 0 then 1 else size_field (vectors s this) * 2)"
    and nt: "nothrow T"
    and mem: "\<not> alloc_limit s < block_bytes T
                (if size_field (vectors s this) = 0 then 1 else size_field (vectors s this) * 2)"
  shows "\<exists>it s'. Emplace T this pos args s = (Inr it, s')"
proof -
  obtain res s' where run: "Emplace T this pos args s = (res, s')"
    by (cases "Emplace T this pos args s")
  show ?thesis
  proof (cases res)
    case (Inr it)
    with run show ?thesis by blast
  next
    case (Inl e)
    from Emplace_growth_defined[OF run[unfolded Inl] full r ok vs pre src fit]
    obtain ex where e: "e = Thrown ex" by (auto simp: is_thrown_def split: error.splits)
    define m where "m = (if size_field (vectors s this) = 0 then 1 else size_field (vectors s this) * 2)"
    from run[unfolded Inl e Emplace_growth[OF full pre], folded m_def] mem[folded m_def]
    have False
      using grow_nothrow[OF nt]
      by (auto split: prod.splits sum.splits)
    then show ?thesis ..
  qed
qed


section \<open>The store after a growth\<close>






lemma store_ok_vectors [simp]: "store_ok (s\<lparr>vectors := V\<rparr>) = store_ok s"
  by (simp add: store_ok_def)


lemma nothrow_IntT: "nothrow IntT"
  by (simp add: nothrow_def IntT_def)



lemma repr_two_vectors_1: "repr 1 two_vectors [3]"
  by (simp add: repr_def slots_def two_vectors_def ptr_add_def nullptr_def eval_nat_numeral)

section \<open>Copy construction\<close>

text \<open>
  C7. Let \<open>other\<close> be a well-formed vector that holds \<open>xs\<close>, and let \<open>this\<close> be
  copy-constructed from it. If copying the elements in order first throws at element \<open>k\<close>,
  with the exception \<open>ex\<close>, then the constructor fails with exactly \<open>ex\<close>; the \<open>k\<close> objects
  that had been copy-constructed into the new block are destroyed again, and they are the
  only objects built or destroyed; the store is what it was before the call, so the new
  block, which has been released, holds nothing and the source is untouched. If the
  allocation fails, the constructor fails with \<^verbatim>\<open>bad_alloc\<close> and has done nothing. A
  constructor that fails has failed in one of these two ways, never by undefined behaviour,
  and when no copy throws and the allocation succeeds, the constructor succeeds. (The byte
  size of a block for the elements of \<open>other\<close> is taken to fit \<^verbatim>\<open>size_t\<close>.)
\<close>

theorem copy_ctor_rollback:
  assumes "repr other s xs" and "store_ok s" and "this \<noteq> other" and "fits T (length xs)"
  shows "(first_copy_throw T xs (env s) = Some (k, ex) \<and> \<not> alloc_limit s < block_bytes T (length xs) \<longrightarrow>
            k < length xs \<and>
            (\<exists>s'. Vector_copy_ctor T this other s = (Inl (Thrown ex), s') \<and>
                  heap s' = heap s \<and>
                  (\<forall>j. heap s' (ptr_add (new_buffer s) (int j)) = None) \<and>
                  trace s' = trace s
                    @ map (\<lambda>j. CopyConstruct (ptr_add (new_buffer s) (int j))
                                   (ptr_add (Vector_begin other s) (int j))) [0..<k]
                    @ map (\<lambda>j. Destroy (ptr_add (new_buffer s) (int j))) [0..<k]))
       \<and> (xs \<noteq> [] \<and> alloc_limit s < block_bytes T (length xs) \<longrightarrow>
            Vector_copy_ctor T this other s = (Inl (Thrown bad_alloc), s))
       \<and> (Vector_copy_ctor T this other s = (Inl e, s1) \<longrightarrow>
            heap s1 = heap s \<and>
            (e = Thrown bad_alloc \<and> alloc_limit s < block_bytes T (length xs)
             \<or> (\<exists>k1 ex1. e = Thrown ex1 \<and> first_copy_throw T xs (env s) = Some (k1, ex1))))
       \<and> (first_copy_throw T xs (env s) = None \<and> \<not> alloc_limit s < block_bytes T (length xs) \<longrightarrow>
            (\<exists>s'. Vector_copy_ctor T this other s = (Inr (), s')))"
proof (intro conjI impI)
  let ?n = "length xs"
  let ?old = "buffer (data (vectors s other))"
  let ?new = "new_buffer s"
  have n: "size_field (vectors s other) = ?n" using assms(1) by (rule repr_size)
  have bs: "block_slots T ?n = ?n" using assms(4) by (rule fits_block)
  have old_base: "base ?old \<noteq> Some (next_addr s)" using assms(1,2) by (rule repr_base_neq)
  let ?d = "\<lparr>buffer = ?new, capacity = ?n\<rparr>"
  let ?s2 = "(fresh_block ?n s)\<lparr>vectors := (vectors s)(this := \<lparr>data = ?d, size_field = ?n\<rparr>)\<rparr>"
  let ?mk = "\<lambda>i. Lvalue (ptr_add ?old (int i)) :: 'c init"
  have unfold: "Vector_copy_ctor T this other s =
        (case uninitialized_loop T ?mk ?new 0 ?n ?s2 of
           (Inl e, s3) \<Rightarrow> (Inl e, Deallocate ?new s3) | (Inr u, s3) \<Rightarrow> (Inr (), s3))"
    if "?n \<noteq> 0" "\<not> alloc_limit s < block_bytes T ?n"
    using that n assms(3) bs
    by (simp add: Vector_copy_ctor_def RawMemory_ctor_def Allocate_def uninitialized_copy_n_def
          GetAddress_def RawMemory_dtor_def Let_def fresh_block_def new_buffer_def
          split: sum.splits prod.splits)
  have src: "\<forall>j<length xs. heap ?s2 (ptr_add ?old (int j)) = Some (Live (xs ! j))"
    using repr_live[OF assms(1)] old_base by (simp add: heap_fresh_block)
  have dst: "\<forall>j. 0 \<le> j \<and> j < length xs \<longrightarrow> heap ?s2 (ptr_add ?new (int j)) = Some Raw" by simp
  have bb: "base ?old \<noteq> base ?new" using old_base by (simp add: new_buffer_def)
  have forward: "\<exists>s3. uninitialized_loop T ?mk ?new 0 ?n ?s2 = (Inl (Thrown ex), s3)
          \<and> k < length xs
          \<and> trace s3 = trace s
              @ map (\<lambda>j. CopyConstruct (ptr_add ?new (int j)) (ptr_add ?old (int j))) [0..<k]
              @ map (\<lambda>j. Destroy (ptr_add ?new (int j))) [0..<k]"
    if "first_copy_throw T xs (env s) = Some (k, ex)" for k ex
    using copy_loop_throws[of T 0 xs ?s2 k ex ?n ?old ?new] that src dst bb by simp
  have success: "\<exists>s3. uninitialized_loop T ?mk ?new 0 ?n ?s2 = (Inr (), s3)"
    if "first_copy_throw T xs (env s) = None"
    using copy_loop_succeeds[of T 0 xs ?s2 ?n ?old ?new] that src dst bb by simp
  have newblock: "heap s (ptr_add ?new (int j)) = None" for j
    using store_ok_fresh[OF assms(2), of "ptr_add ?new (int j)"] by (simp add: new_buffer_def)
  {
    assume a: "first_copy_throw T xs (env s) = Some (k, ex) \<and> \<not> alloc_limit s < block_bytes T ?n"
    then have ne: "?n \<noteq> 0" by auto
    from a have "first_copy_throw T xs (env s) = Some (k, ex)" by simp
    from forward[OF this]
    obtain s3 where l: "uninitialized_loop T ?mk ?new 0 ?n ?s2 = (Inl (Thrown ex), s3)"
      and k: "k < length xs"
      and t: "trace s3 = trace s
              @ map (\<lambda>j. CopyConstruct (ptr_add ?new (int j)) (ptr_add ?old (int j))) [0..<k]
              @ map (\<lambda>j. Destroy (ptr_add ?new (int j))) [0..<k]"
      by auto
    have run: "Vector_copy_ctor T this other s = (Inl (Thrown ex), Deallocate ?new s3)"
      using unfold[OF ne] a l by simp
    from copy_ctor_failure[OF assms(1-3) run assms(4)]
    have h: "heap (Deallocate ?new s3) = heap s" by blast
    show "k < length xs" by (rule k)
    show "\<exists>s'. Vector_copy_ctor T this other s = (Inl (Thrown ex), s') \<and>
                  heap s' = heap s \<and>
                  (\<forall>j. heap s' (ptr_add (new_buffer s) (int j)) = None) \<and>
                  trace s' = trace s
                    @ map (\<lambda>j. CopyConstruct (ptr_add (new_buffer s) (int j))
                                   (ptr_add (Vector_begin other s) (int j))) [0..<k]
                    @ map (\<lambda>j. Destroy (ptr_add (new_buffer s) (int j))) [0..<k]"
      using run h t newblock
      by (intro exI[of _ "Deallocate ?new s3"]) (simp add: Vector_begin_def GetAddress_def)
  }
  {
    assume "xs \<noteq> [] \<and> alloc_limit s < block_bytes T ?n"
    then show "Vector_copy_ctor T this other s = (Inl (Thrown bad_alloc), s)"
      using n by (simp add: Vector_copy_ctor_def RawMemory_ctor_def Allocate_def)
  }
  {
    assume run: "Vector_copy_ctor T this other s = (Inl e, s1)"
    from copy_ctor_failure[OF assms(1-3) run assms(4)]
    obtain ex0 where e: "e = Thrown ex0" and h: "heap s1 = heap s" by blast
    show "heap s1 = heap s" by (rule h)
    show "e = Thrown bad_alloc \<and> alloc_limit s < block_bytes T ?n
          \<or> (\<exists>k1 ex1. e = Thrown ex1 \<and> first_copy_throw T xs (env s) = Some (k1, ex1))"
    proof (cases "alloc_limit s < block_bytes T ?n")
      case True
      have "?n \<noteq> 0"
      proof
        assume "?n = 0"
        then show False using run n
          by (simp add: Vector_copy_ctor_def RawMemory_ctor_def Allocate_def uninitialized_copy_n_def)
      qed
      then show ?thesis using True run n
        by (simp add: Vector_copy_ctor_def RawMemory_ctor_def Allocate_def)
    next
      case False
      have ne: "?n \<noteq> 0"
      proof
        assume "?n = 0"
        then show False using run n
          by (simp add: Vector_copy_ctor_def RawMemory_ctor_def Allocate_def uninitialized_copy_n_def)
      qed
      show ?thesis
      proof (cases "first_copy_throw T xs (env s)")
        case None
        from success[OF None] obtain s3 where "uninitialized_loop T ?mk ?new 0 ?n ?s2 = (Inr (), s3)"
          by blast
        with run unfold[OF ne False] show ?thesis by simp
      next
        case (Some a)
        obtain k1 ex1 where a: "a = (k1, ex1)" by (cases a)
        from forward[OF Some[unfolded a]] obtain s3 where
          "uninitialized_loop T ?mk ?new 0 ?n ?s2 = (Inl (Thrown ex1), s3)" by blast
        with run unfold[OF ne False] have "e = Thrown ex1" by simp
        then show ?thesis using Some a by blast
      qed
    qed
  }
  {
    assume a: "first_copy_throw T xs (env s) = None \<and> \<not> alloc_limit s < block_bytes T ?n"
    show "\<exists>s'. Vector_copy_ctor T this other s = (Inr (), s')"
    proof (cases "?n = 0")
      case True
      then show ?thesis using n
        by (simp add: Vector_copy_ctor_def RawMemory_ctor_def Allocate_def uninitialized_copy_n_def Let_def)
    next
      case False
      from a have "first_copy_throw T xs (env s) = None" by simp
      from success[OF this] obtain s3 where "uninitialized_loop T ?mk ?new 0 ?n ?s2 = (Inr (), s3)"
        by blast
      then show ?thesis using unfold[OF False] a by simp
    qed
  }
qed

theorem copy_ctor_rollback_witness:
  "repr 0 probe_state [(False, 1), (True, 2), (False, 3)] \<and> store_ok probe_state \<and> (2::nat) \<noteq> 0
   \<and> fits ObjT (length [(False, 1), (True, 2), (False, 3 :: int)])
   \<and> first_copy_throw ObjT [(False, 1), (True, 2), (False, 3)] (env probe_state)
        = Some (1, runtime_error ''Oops'')
   \<and> \<not> alloc_limit probe_state < block_bytes ObjT (length [(False, 1), (True, 2), (False, 3 :: int)])
   \<and> fst (Vector_copy_ctor ObjT 2 0 probe_state) = Inl (Thrown (runtime_error ''Oops''))
   \<and> heap (snd (Vector_copy_ctor ObjT 2 0 probe_state)) = heap probe_state
   \<and> trace (snd (Vector_copy_ctor ObjT 2 0 probe_state)) =
        [CopyConstruct (Ptr (Some 2) 0) (Ptr (Some 0) 0), Destroy (Ptr (Some 2) 0)]"
proof -
  let ?xs = "[(False, 1), (True, 2), (False, 3 :: int)]"
  have r: "repr 0 probe_state ?xs"
    by (simp add: repr_def slots_def probe_state_def ptr_add_def nullptr_def eval_nat_numeral)
  have ok: "store_ok probe_state"
    by (auto simp: store_ok_def probe_state_def split: if_splits)
  have ne: "(2::nat) \<noteq> 0" by simp
  have fit: "fits ObjT (length ?xs)" by (simp add: fits_def ObjT_def)
  have f: "first_copy_throw ObjT ?xs (env probe_state) = Some (1, runtime_error ''Oops'')"
    by (simp add: ObjT_def)
  have al: "\<not> alloc_limit probe_state < block_bytes ObjT (length ?xs)"
    by (simp add: block_bytes_def ObjT_def probe_state_def)
  from copy_ctor_rollback[OF r ok ne fit, of 1 "runtime_error ''Oops''"] f al
  obtain s' where run: "Vector_copy_ctor ObjT 2 0 probe_state = (Inl (Thrown (runtime_error ''Oops'')), s')"
    and h: "heap s' = heap probe_state"
    and t: "trace s' = trace probe_state
              @ map (\<lambda>j. CopyConstruct (ptr_add (new_buffer probe_state) (int j))
                             (ptr_add (Vector_begin 0 probe_state) (int j))) [0..<1]
              @ map (\<lambda>j. Destroy (ptr_add (new_buffer probe_state) (int j))) [0..<1]"
    by blast
  have t': "trace s' = [CopyConstruct (Ptr (Some 2) 0) (Ptr (Some 0) 0), Destroy (Ptr (Some 2) 0)]"
    unfolding t by (simp add: new_buffer_def Vector_begin_def GetAddress_def probe_state_def ptr_add_def)
  from r ok fit f al run h t' show ?thesis by simp
qed

section \<open>Moving a vector\<close>

text \<open>
  C10. Move-assigning a vector to itself is a no-op: the guard \<^verbatim>\<open>this != &rhs\<close> skips the
  swap, so the whole state, and with it the size, the capacity and the elements of the
  vector, is unchanged.
\<close>

theorem self_move_assign_noop: "Vector_move_assign this this s = s"
  by (simp add: Vector_move_assign_def)

text \<open>
  C8, as stated, fails for move assignment: it is a swap, so the source of the move ends up
  with what the target held. Moving vector 1 into vector 0, which holds two elements, leaves
  vector 1 with two elements, not empty.
\<close>

theorem move_assign_source_not_empty:
  "Size 1 (Vector_move_assign 0 1 two_vectors) = 2 \<and> Size 1 (Vector_move_assign 0 1 two_vectors) \<noteq> 0"
  by (simp add: Vector_move_assign_def Swap_def RawMemory_Swap_def set_data_def set_size_def
        Size_def two_vectors_def)

text \<open>
  C8, amended. Neither operation can fail (both return a state, never an error), and
  neither touches the store, the element type or the log: no element is constructed,
  copied or destroyed. Move construction adopts the block and the size of the source and
  leaves the source empty, with a null buffer. Move assignment from another vector adopts
  the block and the size of the source and hands the source the block and the size the
  target had; the source is empty afterwards only if the target was.
\<close>

theorem move_adopts_storage:
  assumes "this \<noteq> other"
  shows "vectors (Vector_move_ctor this other s) this = vectors s other
       \<and> vectors (Vector_move_ctor this other s) other = Vector_default
       \<and> heap (Vector_move_ctor this other s) = heap s
       \<and> env (Vector_move_ctor this other s) = env s
       \<and> trace (Vector_move_ctor this other s) = trace s
       \<and> vectors (Vector_move_assign this other s) this = vectors s other
       \<and> vectors (Vector_move_assign this other s) other = vectors s this
       \<and> heap (Vector_move_assign this other s) = heap s
       \<and> env (Vector_move_assign this other s) = env s
       \<and> trace (Vector_move_assign this other s) = trace s"
  using assms
  by (simp add: Vector_move_ctor_def Vector_move_assign_def Swap_def RawMemory_Swap_def
        RawMemory_move_ctor_def set_data_def set_size_def Vector_default_def RawMemory_default_def)

theorem move_adopts_storage_witness:
  "(0::nat) \<noteq> 1
   \<and> Size 0 (Vector_move_ctor 0 1 two_vectors) = 1 \<and> Capacity 0 (Vector_move_ctor 0 1 two_vectors) = 1
   \<and> Vector_begin 0 (Vector_move_ctor 0 1 two_vectors) = Ptr (Some 1) 0
   \<and> Size 1 (Vector_move_ctor 0 1 two_vectors) = 0
   \<and> Size 0 (Vector_move_assign 0 1 two_vectors) = 1
   \<and> Size 1 (Vector_move_assign 0 1 two_vectors) = 2"
proof -
  have h: "(0::nat) \<noteq> 1" by simp
  show ?thesis
    using move_adopts_storage[OF h, of two_vectors]
    by (simp add: Size_def Capacity_def Vector_begin_def GetAddress_def two_vectors_def
          Vector_default_def)
qed

section \<open>Assertions\<close>

text \<open>
  C9, as stated, fails for \<^verbatim>\<open>PopBack\<close>, which has no assertion: on an empty vector it does
  not stop at an assertion but destroys the object before the buffer, which is undefined.
\<close>

theorem PopBack_unchecked:
  "Size 0 empty_state = 0
   \<and> fst (PopBack IntT 0 empty_state) = Inl UndefinedBehaviour
   \<and> fst (PopBack IntT 0 empty_state) \<noteq> Inl AssertionFailed"
  by (simp add: PopBack_def seq_def destroy_at_def Size_def empty_state_def Vector_default_def)

text \<open>
  C9, amended. Indexed access, \<^verbatim>\<open>Erase\<close> and \<^verbatim>\<open>Emplace\<close>/\<^verbatim>\<open>Insert\<close> check their precondition
  with an assertion: when it is violated the run stops there, with the state untouched, and
  an index below the size of a well-formed vector passes. \<^verbatim>\<open>PopBack\<close> checks nothing: it
  never stops at an assertion, and on an empty well-formed vector its behaviour is
  undefined.
\<close>

theorem preconditions_asserted:
  "(\<not> index < Size this s \<longrightarrow> Vector_index this index s = Inl AssertionFailed)
   \<and> (index < Size this s \<and> Size this s \<le> Capacity this s \<longrightarrow>
        Vector_index this index s = Inr (ptr_add (Vector_begin this s) (int index)))
   \<and> (\<not> (ptr_le (Vector_begin this s) pos \<and> ptr_less pos (Vector_end this s)) \<longrightarrow>
        Erase T this pos s = (Inl AssertionFailed, s))
   \<and> (\<not> (ptr_le (Vector_begin this s) pos \<and> ptr_le pos (Vector_end this s)) \<longrightarrow>
        Emplace T this pos args s = (Inl AssertionFailed, s) \<and>
        Insert T this pos args s = (Inl AssertionFailed, s))
   \<and> fst (PopBack T this s) \<noteq> Inl AssertionFailed
   \<and> (repr this s [] \<and> store_ok s \<longrightarrow> PopBack T this s = (Inl UndefinedBehaviour, s))"
proof -
  have pop: "fst (PopBack T this s) \<noteq> Inl AssertionFailed"
    by (simp add: PopBack_def seq_def destroy_at_def split: option.splits slot.splits)
  have empty: "PopBack T this s = (Inl UndefinedBehaviour, s)" if r: "repr this s []" and ok: "store_ok s"
  proof -
    have "heap s (ptr_add (buffer (data (vectors s this))) (- 1)) = None"
    proof (rule ccontr)
      assume "heap s (ptr_add (buffer (data (vectors s this))) (- 1)) \<noteq> None"
      then have "0 \<le> off (ptr_add (buffer (data (vectors s this))) (- 1))"
        using ok unfolding store_ok_def by blast
      then show False using r by (simp add: repr_def)
    qed
    then show ?thesis using r
      by (simp add: PopBack_def seq_def destroy_at_def GetAddress_def repr_def)
  qed
  show ?thesis
    using pop empty
    by (simp add: Vector_index_def RawMemory_index_def Erase_def Emplace_def Insert_def
          Size_def Capacity_def Vector_begin_def GetAddress_def)
qed

theorem preconditions_asserted_witness:
  "Vector_index 0 2 two_vectors = Inl AssertionFailed
   \<and> Vector_index 0 1 two_vectors = Inr (Ptr (Some 0) 1)
   \<and> Erase IntT 0 (Ptr (Some 0) 2) two_vectors = (Inl AssertionFailed, two_vectors)
   \<and> Emplace IntT 0 (Ptr (Some 0) 3) (Args 7) two_vectors = (Inl AssertionFailed, two_vectors)
   \<and> Insert IntT 0 (Ptr (Some 1) 0) (Args 7) two_vectors = (Inl AssertionFailed, two_vectors)
   \<and> repr 0 empty_state [] \<and> store_ok empty_state
   \<and> PopBack IntT 0 empty_state = (Inl UndefinedBehaviour, empty_state)"
proof -
  have r: "repr 0 empty_state []"
    by (simp add: repr_def slots_def empty_state_def Vector_default_def RawMemory_default_def nullptr_def)
  have ok: "store_ok empty_state"
    by (simp add: store_ok_def empty_state_def)
  have a: "\<not> (2::nat) < Size 0 two_vectors" "(1::nat) < Size 0 two_vectors \<and> Size 0 two_vectors \<le> Capacity 0 two_vectors"
    by (simp_all add: Size_def Capacity_def two_vectors_def)
  have b: "\<not> (ptr_le (Vector_begin 0 two_vectors) (Ptr (Some 0) 2) \<and> ptr_less (Ptr (Some 0) 2) (Vector_end 0 two_vectors))"
    "\<not> (ptr_le (Vector_begin 0 two_vectors) (Ptr (Some 0) 3) \<and> ptr_le (Ptr (Some 0) 3) (Vector_end 0 two_vectors))"
    "\<not> (ptr_le (Vector_begin 0 two_vectors) (Ptr (Some 1) 0) \<and> ptr_le (Ptr (Some 1) 0) (Vector_end 0 two_vectors))"
    by (simp_all add: ptr_le_def ptr_less_def Vector_begin_def Vector_end_def GetAddress_def two_vectors_def)
  have c: "ptr_add (Vector_begin 0 two_vectors) (int 1) = Ptr (Some 0) 1"
    by (simp add: Vector_begin_def GetAddress_def two_vectors_def ptr_add_def)
  show ?thesis
    using preconditions_asserted[of 2 0 two_vectors "Ptr (Some 0) 2" IntT "Args 7"]
      preconditions_asserted[of 1 0 two_vectors "Ptr (Some 0) 3" IntT "Args 7"]
      preconditions_asserted[of 1 0 two_vectors "Ptr (Some 1) 0" IntT "Args 7"]
      preconditions_asserted[of 0 0 empty_state nullptr IntT "Args 7"]
      r ok a b c
    by simp
qed

section \<open>Relocation\<close>

text \<open>
  C2. Whenever \<^verbatim>\<open>Reserve\<close>, \<^verbatim>\<open>Resize\<close>, \<^verbatim>\<open>PushBack\<close>, \<^verbatim>\<open>EmplaceBack\<close> or
  \<^verbatim>\<open>Emplace\<close>/\<^verbatim>\<open>Insert\<close> moves the elements into a new block and succeeds, the log of the
  call is exactly: the construction of the new element (for the insertions), then one
  construction per old element, from its old slot into its new slot, then the destruction
  of the old elements (and, for \<^verbatim>\<open>Resize\<close>, the value construction of the added elements).
  Each of these relocating constructions is the one \<open>relocation T\<close> names: a move
  construction when \<^verbatim>\<open>T\<close> is nothrow-move-constructible or not copy-constructible, a copy
  construction otherwise. The choice depends on the two traits of \<^verbatim>\<open>T\<close> only, not on the
  state or the element.
\<close>

theorem relocation_dispatch:
  "(Capacity this s < c \<and> Reserve T this c s = (Inr u, s') \<longrightarrow>
      trace s' = trace s
        @ map (\<lambda>i. construct_event (ptr_add (new_buffer s) (int i))
                     (relocation T (ptr_add (Vector_begin this s) (int i)))) [0..<Size this s]
        @ map (\<lambda>i. Destroy (ptr_add (Vector_begin this s) (int i))) [0..<Size this s])
   \<and> (Capacity this s < c \<and> Size this s < c \<and> Resize T this c s = (Inr u, s') \<longrightarrow>
      trace s' = trace s
        @ map (\<lambda>i. construct_event (ptr_add (new_buffer s) (int i))
                     (relocation T (ptr_add (Vector_begin this s) (int i)))) [0..<Size this s]
        @ map (\<lambda>i. Destroy (ptr_add (Vector_begin this s) (int i))) [0..<Size this s]
        @ map (\<lambda>i. ValueConstruct (ptr_add (new_buffer s) (int (Size this s) + int i))) [0..<c - Size this s])
   \<and> (Capacity this s = Size this s \<and> PushBack T this args s = (Inr u, s') \<longrightarrow>
      trace s' = trace s
        @ [construct_event (ptr_add (new_buffer s) (int (Size this s))) args]
        @ map (\<lambda>i. construct_event (ptr_add (new_buffer s) (int i))
                     (relocation T (ptr_add (Vector_begin this s) (int i)))) [0..<Size this s]
        @ map (\<lambda>i. Destroy (ptr_add (Vector_begin this s) (int i))) [0..<Size this s])
   \<and> (Capacity this s = Size this s \<and> EmplaceBack T this args s = (Inr it, s') \<longrightarrow>
      trace s' = trace s
        @ [construct_event (ptr_add (new_buffer s) (int (Size this s))) args]
        @ map (\<lambda>i. construct_event (ptr_add (new_buffer s) (int i))
                     (relocation T (ptr_add (Vector_begin this s) (int i)))) [0..<Size this s]
        @ map (\<lambda>i. Destroy (ptr_add (Vector_begin this s) (int i))) [0..<Size this s])
   \<and> (Capacity this s = Size this s \<and>
        (Emplace T this pos args s = (Inr it, s') \<or> Insert T this pos args s = (Inr it, s')) \<longrightarrow>
      trace s' = trace s
        @ [construct_event (ptr_add (new_buffer s) (int (distance (Vector_begin this s) pos))) args]
        @ map (\<lambda>i. construct_event (ptr_add (new_buffer s) (int i))
                     (relocation T (ptr_add (Vector_begin this s) (int i))))
              [0..<distance (Vector_begin this s) pos]
        @ map (\<lambda>i. construct_event
                     (ptr_add (new_buffer s) (int (distance (Vector_begin this s) pos) + 1 + int i))
                     (relocation T (ptr_add (Vector_begin this s)
                        (int (distance (Vector_begin this s) pos) + int i))))
              [0..<Size this s - distance (Vector_begin this s) pos]
        @ map (\<lambda>i. Destroy (ptr_add (Vector_begin this s) (int i))) [0..<Size this s])"
proof (intro conjI impI)
  assume "Capacity this s < c \<and> Reserve T this c s = (Inr u, s')"
  then show "trace s' = trace s
        @ map (\<lambda>i. construct_event (ptr_add (new_buffer s) (int i))
                     (relocation T (ptr_add (Vector_begin this s) (int i)))) [0..<Size this s]
        @ map (\<lambda>i. Destroy (ptr_add (Vector_begin this s) (int i))) [0..<Size this s]"
    using Reserve_trace(1)[of T this c s u s']
    by (simp add: Vector_begin_def GetAddress_def Size_def Capacity_def)
next
  assume "Capacity this s < c \<and> Size this s < c \<and> Resize T this c s = (Inr u, s')"
  then show "trace s' = trace s
        @ map (\<lambda>i. construct_event (ptr_add (new_buffer s) (int i))
                     (relocation T (ptr_add (Vector_begin this s) (int i)))) [0..<Size this s]
        @ map (\<lambda>i. Destroy (ptr_add (Vector_begin this s) (int i))) [0..<Size this s]
        @ map (\<lambda>i. ValueConstruct (ptr_add (new_buffer s) (int (Size this s) + int i))) [0..<c - Size this s]"
    using Resize_trace[of T this c s u s']
    by (simp add: Vector_begin_def GetAddress_def Size_def Capacity_def)
next
  assume a: "Capacity this s = Size this s \<and> PushBack T this args s = (Inr u, s')"
  then have full: "capacity (data (vectors s this)) = size_field (vectors s this)"
    by (simp add: Capacity_def Size_def)
  from a obtain it where "Emplace T this (Vector_end this s) args s = (Inr it, s')"
    unfolding PushBack_full[OF full] by (auto split: prod.splits sum.splits)
  from Emplace_growth_trace[OF this full]
  show "trace s' = trace s
        @ [construct_event (ptr_add (new_buffer s) (int (Size this s))) args]
        @ map (\<lambda>i. construct_event (ptr_add (new_buffer s) (int i))
                     (relocation T (ptr_add (Vector_begin this s) (int i)))) [0..<Size this s]
        @ map (\<lambda>i. Destroy (ptr_add (Vector_begin this s) (int i))) [0..<Size this s]"
    by (simp add: Vector_begin_def Vector_end_def GetAddress_def Size_def distance_def)
next
  assume a: "Capacity this s = Size this s \<and> EmplaceBack T this args s = (Inr it, s')"
  then have full: "capacity (data (vectors s this)) = size_field (vectors s this)"
    by (simp add: Capacity_def Size_def)
  from a have "Emplace T this (Vector_end this s) args s = (Inr it, s')"
    unfolding EmplaceBack_full[OF full] by simp
  from Emplace_growth_trace[OF this full]
  show "trace s' = trace s
        @ [construct_event (ptr_add (new_buffer s) (int (Size this s))) args]
        @ map (\<lambda>i. construct_event (ptr_add (new_buffer s) (int i))
                     (relocation T (ptr_add (Vector_begin this s) (int i)))) [0..<Size this s]
        @ map (\<lambda>i. Destroy (ptr_add (Vector_begin this s) (int i))) [0..<Size this s]"
    by (simp add: Vector_begin_def Vector_end_def GetAddress_def Size_def distance_def)
next
  assume a: "Capacity this s = Size this s \<and>
        (Emplace T this pos args s = (Inr it, s') \<or> Insert T this pos args s = (Inr it, s'))"
  then have full: "capacity (data (vectors s this)) = size_field (vectors s this)"
    and run: "Emplace T this pos args s = (Inr it, s')"
    by (auto simp: Capacity_def Size_def Insert_def)
  from Emplace_growth_trace[OF run full]
  show "trace s' = trace s
        @ [construct_event (ptr_add (new_buffer s) (int (distance (Vector_begin this s) pos))) args]
        @ map (\<lambda>i. construct_event (ptr_add (new_buffer s) (int i))
                     (relocation T (ptr_add (Vector_begin this s) (int i))))
              [0..<distance (Vector_begin this s) pos]
        @ map (\<lambda>i. construct_event
                     (ptr_add (new_buffer s) (int (distance (Vector_begin this s) pos) + 1 + int i))
                     (relocation T (ptr_add (Vector_begin this s)
                        (int (distance (Vector_begin this s) pos) + int i))))
              [0..<Size this s - distance (Vector_begin this s) pos]
        @ map (\<lambda>i. Destroy (ptr_add (Vector_begin this s) (int i))) [0..<Size this s]"
    by (simp add: Vector_begin_def GetAddress_def Size_def)
qed


theorem relocation_dispatch_witness:
  "Capacity 0 with_copy_state < 5
   \<and> Capacity 0 with_copy_state < 4 \<and> Size 0 with_copy_state < 4
   \<and> Capacity 0 with_copy_state = Size 0 with_copy_state
   \<and> fst (Reserve (WithCopyT True) 0 5 with_copy_state) = Inr ()
   \<and> trace (snd (Reserve (WithCopyT True) 0 5 with_copy_state)) =
        [MoveConstruct (Ptr (Some 1) 0) (Ptr (Some 0) 0),
         MoveConstruct (Ptr (Some 1) 1) (Ptr (Some 0) 1),
         Destroy (Ptr (Some 0) 0),
         Destroy (Ptr (Some 0) 1)]
   \<and> fst (Resize (WithCopyT True) 0 4 with_copy_state) = Inr ()
   \<and> trace (snd (Resize (WithCopyT True) 0 4 with_copy_state)) =
        [MoveConstruct (Ptr (Some 1) 0) (Ptr (Some 0) 0),
         MoveConstruct (Ptr (Some 1) 1) (Ptr (Some 0) 1),
         Destroy (Ptr (Some 0) 0),
         Destroy (Ptr (Some 0) 1),
         ValueConstruct (Ptr (Some 1) 2),
         ValueConstruct (Ptr (Some 1) 3)]
   \<and> fst (PushBack (WithCopyT True) 0 (Args 7) with_copy_state) = Inr ()
   \<and> trace (snd (PushBack (WithCopyT True) 0 (Args 7) with_copy_state)) =
        [Construct (Ptr (Some 1) 2),
         MoveConstruct (Ptr (Some 1) 0) (Ptr (Some 0) 0),
         MoveConstruct (Ptr (Some 1) 1) (Ptr (Some 0) 1),
         Destroy (Ptr (Some 0) 0),
         Destroy (Ptr (Some 0) 1)]
   \<and> fst (EmplaceBack (WithCopyT True) 0 (Args 7) with_copy_state) = Inr (Ptr (Some 1) 2)
   \<and> trace (snd (EmplaceBack (WithCopyT True) 0 (Args 7) with_copy_state)) =
        [Construct (Ptr (Some 1) 2),
         MoveConstruct (Ptr (Some 1) 0) (Ptr (Some 0) 0),
         MoveConstruct (Ptr (Some 1) 1) (Ptr (Some 0) 1),
         Destroy (Ptr (Some 0) 0),
         Destroy (Ptr (Some 0) 1)]
   \<and> fst (Emplace (WithCopyT True) 0 (Ptr (Some 0) 1) (Args 7) with_copy_state) = Inr (Ptr (Some 1) 1)
   \<and> trace (snd (Emplace (WithCopyT True) 0 (Ptr (Some 0) 1) (Args 7) with_copy_state)) =
        [Construct (Ptr (Some 1) 1),
         MoveConstruct (Ptr (Some 1) 0) (Ptr (Some 0) 0),
         MoveConstruct (Ptr (Some 1) 2) (Ptr (Some 0) 1),
         Destroy (Ptr (Some 0) 0),
         Destroy (Ptr (Some 0) 1)]
   \<and> fst (Insert (WithCopyT True) 0 (Ptr (Some 0) 1) (Lvalue (Ptr (Some 0) 0)) with_copy_state) = Inr (Ptr (Some 1) 1)
   \<and> trace (snd (Insert (WithCopyT True) 0 (Ptr (Some 0) 1) (Lvalue (Ptr (Some 0) 0)) with_copy_state)) =
        [CopyConstruct (Ptr (Some 1) 1) (Ptr (Some 0) 0),
         MoveConstruct (Ptr (Some 1) 0) (Ptr (Some 0) 0),
         MoveConstruct (Ptr (Some 1) 2) (Ptr (Some 0) 1),
         Destroy (Ptr (Some 0) 0),
         Destroy (Ptr (Some 0) 1)]
   \<and> fst (Reserve (WithCopyT False) 0 5 with_copy_state) = Inr ()
   \<and> trace (snd (Reserve (WithCopyT False) 0 5 with_copy_state)) =
        [CopyConstruct (Ptr (Some 1) 0) (Ptr (Some 0) 0),
         CopyConstruct (Ptr (Some 1) 1) (Ptr (Some 0) 1),
         Destroy (Ptr (Some 0) 0),
         Destroy (Ptr (Some 0) 1)]
   \<and> fst (Resize (WithCopyT False) 0 4 with_copy_state) = Inr ()
   \<and> trace (snd (Resize (WithCopyT False) 0 4 with_copy_state)) =
        [CopyConstruct (Ptr (Some 1) 0) (Ptr (Some 0) 0),
         CopyConstruct (Ptr (Some 1) 1) (Ptr (Some 0) 1),
         Destroy (Ptr (Some 0) 0),
         Destroy (Ptr (Some 0) 1),
         ValueConstruct (Ptr (Some 1) 2),
         ValueConstruct (Ptr (Some 1) 3)]
   \<and> fst (PushBack (WithCopyT False) 0 (Args 7) with_copy_state) = Inr ()
   \<and> trace (snd (PushBack (WithCopyT False) 0 (Args 7) with_copy_state)) =
        [Construct (Ptr (Some 1) 2),
         CopyConstruct (Ptr (Some 1) 0) (Ptr (Some 0) 0),
         CopyConstruct (Ptr (Some 1) 1) (Ptr (Some 0) 1),
         Destroy (Ptr (Some 0) 0),
         Destroy (Ptr (Some 0) 1)]
   \<and> fst (EmplaceBack (WithCopyT False) 0 (Args 7) with_copy_state) = Inr (Ptr (Some 1) 2)
   \<and> trace (snd (EmplaceBack (WithCopyT False) 0 (Args 7) with_copy_state)) =
        [Construct (Ptr (Some 1) 2),
         CopyConstruct (Ptr (Some 1) 0) (Ptr (Some 0) 0),
         CopyConstruct (Ptr (Some 1) 1) (Ptr (Some 0) 1),
         Destroy (Ptr (Some 0) 0),
         Destroy (Ptr (Some 0) 1)]
   \<and> fst (Emplace (WithCopyT False) 0 (Ptr (Some 0) 1) (Args 7) with_copy_state) = Inr (Ptr (Some 1) 1)
   \<and> trace (snd (Emplace (WithCopyT False) 0 (Ptr (Some 0) 1) (Args 7) with_copy_state)) =
        [Construct (Ptr (Some 1) 1),
         CopyConstruct (Ptr (Some 1) 0) (Ptr (Some 0) 0),
         CopyConstruct (Ptr (Some 1) 2) (Ptr (Some 0) 1),
         Destroy (Ptr (Some 0) 0),
         Destroy (Ptr (Some 0) 1)]
   \<and> fst (Insert (WithCopyT False) 0 (Ptr (Some 0) 1) (Lvalue (Ptr (Some 0) 0)) with_copy_state) = Inr (Ptr (Some 1) 1)
   \<and> trace (snd (Insert (WithCopyT False) 0 (Ptr (Some 0) 1) (Lvalue (Ptr (Some 0) 0)) with_copy_state)) =
        [CopyConstruct (Ptr (Some 1) 1) (Ptr (Some 0) 0),
         CopyConstruct (Ptr (Some 1) 0) (Ptr (Some 0) 0),
         CopyConstruct (Ptr (Some 1) 2) (Ptr (Some 0) 1),
         Destroy (Ptr (Some 0) 0),
         Destroy (Ptr (Some 0) 1)]"
proof -
  have capc: "Capacity 0 with_copy_state < 5" by (simp add: Capacity_def with_copy_state_def)
  have capr: "Capacity 0 with_copy_state < 4 \<and> Size 0 with_copy_state < 4"
    by (simp add: Capacity_def Size_def with_copy_state_def)
  have full: "Capacity 0 with_copy_state = Size 0 with_copy_state"
    by (simp add: Capacity_def Size_def with_copy_state_def)
  note ev = Size_def Vector_begin_def GetAddress_def new_buffer_def relocation_def ptr_add_def
    distance_def with_copy_state_def WithCopyT_def eval_nat_numeral
  have f_reserve_m: "fst (Reserve (WithCopyT True) 0 5 with_copy_state) = Inr ()" by code_simp
  then have r_reserve_m: "Reserve (WithCopyT True) 0 5 with_copy_state = (Inr (), snd (Reserve (WithCopyT True) 0 5 with_copy_state))"
    by (cases "Reserve (WithCopyT True) 0 5 with_copy_state") simp
  have t_reserve_m: "trace (snd (Reserve (WithCopyT True) 0 5 with_copy_state)) =
        [MoveConstruct (Ptr (Some 1) 0) (Ptr (Some 0) 0),
         MoveConstruct (Ptr (Some 1) 1) (Ptr (Some 0) 1),
         Destroy (Ptr (Some 0) 0),
         Destroy (Ptr (Some 0) 1)]"
    using relocation_dispatch[where s = with_copy_state and this = 0 and T = "WithCopyT True" and c = 5 and u = "()"
        and s' = "snd (Reserve (WithCopyT True) 0 5 with_copy_state)"] capc r_reserve_m
    by (simp add: ev)
  have f_resize_m: "fst (Resize (WithCopyT True) 0 4 with_copy_state) = Inr ()" by code_simp
  then have r_resize_m: "Resize (WithCopyT True) 0 4 with_copy_state = (Inr (), snd (Resize (WithCopyT True) 0 4 with_copy_state))"
    by (cases "Resize (WithCopyT True) 0 4 with_copy_state") simp
  have t_resize_m: "trace (snd (Resize (WithCopyT True) 0 4 with_copy_state)) =
        [MoveConstruct (Ptr (Some 1) 0) (Ptr (Some 0) 0),
         MoveConstruct (Ptr (Some 1) 1) (Ptr (Some 0) 1),
         Destroy (Ptr (Some 0) 0),
         Destroy (Ptr (Some 0) 1),
         ValueConstruct (Ptr (Some 1) 2),
         ValueConstruct (Ptr (Some 1) 3)]"
    using relocation_dispatch[where s = with_copy_state and this = 0 and T = "WithCopyT True" and c = 4 and u = "()"
        and s' = "snd (Resize (WithCopyT True) 0 4 with_copy_state)"] capr r_resize_m
    by (simp add: ev)
  have f_push_m: "fst (PushBack (WithCopyT True) 0 (Args 7) with_copy_state) = Inr ()" by code_simp
  then have r_push_m: "PushBack (WithCopyT True) 0 (Args 7) with_copy_state = (Inr (), snd (PushBack (WithCopyT True) 0 (Args 7) with_copy_state))"
    by (cases "PushBack (WithCopyT True) 0 (Args 7) with_copy_state") simp
  have t_push_m: "trace (snd (PushBack (WithCopyT True) 0 (Args 7) with_copy_state)) =
        [Construct (Ptr (Some 1) 2),
         MoveConstruct (Ptr (Some 1) 0) (Ptr (Some 0) 0),
         MoveConstruct (Ptr (Some 1) 1) (Ptr (Some 0) 1),
         Destroy (Ptr (Some 0) 0),
         Destroy (Ptr (Some 0) 1)]"
    using relocation_dispatch[where s = with_copy_state and this = 0 and T = "WithCopyT True" and args = "Args 7" and u = "()"
        and s' = "snd (PushBack (WithCopyT True) 0 (Args 7) with_copy_state)"] full r_push_m
    by (simp add: ev)
  have f_emplaceback_m: "fst (EmplaceBack (WithCopyT True) 0 (Args 7) with_copy_state) = Inr (Ptr (Some 1) 2)" by code_simp
  then have r_emplaceback_m: "EmplaceBack (WithCopyT True) 0 (Args 7) with_copy_state = (Inr (Ptr (Some 1) 2), snd (EmplaceBack (WithCopyT True) 0 (Args 7) with_copy_state))"
    by (cases "EmplaceBack (WithCopyT True) 0 (Args 7) with_copy_state") simp
  have t_emplaceback_m: "trace (snd (EmplaceBack (WithCopyT True) 0 (Args 7) with_copy_state)) =
        [Construct (Ptr (Some 1) 2),
         MoveConstruct (Ptr (Some 1) 0) (Ptr (Some 0) 0),
         MoveConstruct (Ptr (Some 1) 1) (Ptr (Some 0) 1),
         Destroy (Ptr (Some 0) 0),
         Destroy (Ptr (Some 0) 1)]"
    using relocation_dispatch[where s = with_copy_state and this = 0 and T = "WithCopyT True" and args = "Args 7" and it = "Ptr (Some 1) 2"
        and s' = "snd (EmplaceBack (WithCopyT True) 0 (Args 7) with_copy_state)"] full r_emplaceback_m
    by (simp add: ev)
  have f_emplace_m: "fst (Emplace (WithCopyT True) 0 (Ptr (Some 0) 1) (Args 7) with_copy_state) = Inr (Ptr (Some 1) 1)" by code_simp
  then have r_emplace_m: "Emplace (WithCopyT True) 0 (Ptr (Some 0) 1) (Args 7) with_copy_state = (Inr (Ptr (Some 1) 1), snd (Emplace (WithCopyT True) 0 (Ptr (Some 0) 1) (Args 7) with_copy_state))"
    by (cases "Emplace (WithCopyT True) 0 (Ptr (Some 0) 1) (Args 7) with_copy_state") simp
  have t_emplace_m: "trace (snd (Emplace (WithCopyT True) 0 (Ptr (Some 0) 1) (Args 7) with_copy_state)) =
        [Construct (Ptr (Some 1) 1),
         MoveConstruct (Ptr (Some 1) 0) (Ptr (Some 0) 0),
         MoveConstruct (Ptr (Some 1) 2) (Ptr (Some 0) 1),
         Destroy (Ptr (Some 0) 0),
         Destroy (Ptr (Some 0) 1)]"
    using relocation_dispatch[where s = with_copy_state and this = 0 and T = "WithCopyT True" and args = "Args 7" and it = "Ptr (Some 1) 1" and pos = "Ptr (Some 0) 1"
        and s' = "snd (Emplace (WithCopyT True) 0 (Ptr (Some 0) 1) (Args 7) with_copy_state)"] full r_emplace_m
    by (simp add: ev)
  have f_insert_m: "fst (Insert (WithCopyT True) 0 (Ptr (Some 0) 1) (Lvalue (Ptr (Some 0) 0)) with_copy_state) = Inr (Ptr (Some 1) 1)" by code_simp
  then have r_insert_m: "Insert (WithCopyT True) 0 (Ptr (Some 0) 1) (Lvalue (Ptr (Some 0) 0)) with_copy_state = (Inr (Ptr (Some 1) 1), snd (Insert (WithCopyT True) 0 (Ptr (Some 0) 1) (Lvalue (Ptr (Some 0) 0)) with_copy_state))"
    by (cases "Insert (WithCopyT True) 0 (Ptr (Some 0) 1) (Lvalue (Ptr (Some 0) 0)) with_copy_state") simp
  have t_insert_m: "trace (snd (Insert (WithCopyT True) 0 (Ptr (Some 0) 1) (Lvalue (Ptr (Some 0) 0)) with_copy_state)) =
        [CopyConstruct (Ptr (Some 1) 1) (Ptr (Some 0) 0),
         MoveConstruct (Ptr (Some 1) 0) (Ptr (Some 0) 0),
         MoveConstruct (Ptr (Some 1) 2) (Ptr (Some 0) 1),
         Destroy (Ptr (Some 0) 0),
         Destroy (Ptr (Some 0) 1)]"
    using relocation_dispatch[where s = with_copy_state and this = 0 and T = "WithCopyT True" and args = "Lvalue (Ptr (Some 0) 0)" and it = "Ptr (Some 1) 1" and pos = "Ptr (Some 0) 1"
        and s' = "snd (Insert (WithCopyT True) 0 (Ptr (Some 0) 1) (Lvalue (Ptr (Some 0) 0)) with_copy_state)"] full r_insert_m
    by (simp add: ev)
  have f_reserve_c: "fst (Reserve (WithCopyT False) 0 5 with_copy_state) = Inr ()" by code_simp
  then have r_reserve_c: "Reserve (WithCopyT False) 0 5 with_copy_state = (Inr (), snd (Reserve (WithCopyT False) 0 5 with_copy_state))"
    by (cases "Reserve (WithCopyT False) 0 5 with_copy_state") simp
  have t_reserve_c: "trace (snd (Reserve (WithCopyT False) 0 5 with_copy_state)) =
        [CopyConstruct (Ptr (Some 1) 0) (Ptr (Some 0) 0),
         CopyConstruct (Ptr (Some 1) 1) (Ptr (Some 0) 1),
         Destroy (Ptr (Some 0) 0),
         Destroy (Ptr (Some 0) 1)]"
    using relocation_dispatch[where s = with_copy_state and this = 0 and T = "WithCopyT False" and c = 5 and u = "()"
        and s' = "snd (Reserve (WithCopyT False) 0 5 with_copy_state)"] capc r_reserve_c
    by (simp add: ev)
  have f_resize_c: "fst (Resize (WithCopyT False) 0 4 with_copy_state) = Inr ()" by code_simp
  then have r_resize_c: "Resize (WithCopyT False) 0 4 with_copy_state = (Inr (), snd (Resize (WithCopyT False) 0 4 with_copy_state))"
    by (cases "Resize (WithCopyT False) 0 4 with_copy_state") simp
  have t_resize_c: "trace (snd (Resize (WithCopyT False) 0 4 with_copy_state)) =
        [CopyConstruct (Ptr (Some 1) 0) (Ptr (Some 0) 0),
         CopyConstruct (Ptr (Some 1) 1) (Ptr (Some 0) 1),
         Destroy (Ptr (Some 0) 0),
         Destroy (Ptr (Some 0) 1),
         ValueConstruct (Ptr (Some 1) 2),
         ValueConstruct (Ptr (Some 1) 3)]"
    using relocation_dispatch[where s = with_copy_state and this = 0 and T = "WithCopyT False" and c = 4 and u = "()"
        and s' = "snd (Resize (WithCopyT False) 0 4 with_copy_state)"] capr r_resize_c
    by (simp add: ev)
  have f_push_c: "fst (PushBack (WithCopyT False) 0 (Args 7) with_copy_state) = Inr ()" by code_simp
  then have r_push_c: "PushBack (WithCopyT False) 0 (Args 7) with_copy_state = (Inr (), snd (PushBack (WithCopyT False) 0 (Args 7) with_copy_state))"
    by (cases "PushBack (WithCopyT False) 0 (Args 7) with_copy_state") simp
  have t_push_c: "trace (snd (PushBack (WithCopyT False) 0 (Args 7) with_copy_state)) =
        [Construct (Ptr (Some 1) 2),
         CopyConstruct (Ptr (Some 1) 0) (Ptr (Some 0) 0),
         CopyConstruct (Ptr (Some 1) 1) (Ptr (Some 0) 1),
         Destroy (Ptr (Some 0) 0),
         Destroy (Ptr (Some 0) 1)]"
    using relocation_dispatch[where s = with_copy_state and this = 0 and T = "WithCopyT False" and args = "Args 7" and u = "()"
        and s' = "snd (PushBack (WithCopyT False) 0 (Args 7) with_copy_state)"] full r_push_c
    by (simp add: ev)
  have f_emplaceback_c: "fst (EmplaceBack (WithCopyT False) 0 (Args 7) with_copy_state) = Inr (Ptr (Some 1) 2)" by code_simp
  then have r_emplaceback_c: "EmplaceBack (WithCopyT False) 0 (Args 7) with_copy_state = (Inr (Ptr (Some 1) 2), snd (EmplaceBack (WithCopyT False) 0 (Args 7) with_copy_state))"
    by (cases "EmplaceBack (WithCopyT False) 0 (Args 7) with_copy_state") simp
  have t_emplaceback_c: "trace (snd (EmplaceBack (WithCopyT False) 0 (Args 7) with_copy_state)) =
        [Construct (Ptr (Some 1) 2),
         CopyConstruct (Ptr (Some 1) 0) (Ptr (Some 0) 0),
         CopyConstruct (Ptr (Some 1) 1) (Ptr (Some 0) 1),
         Destroy (Ptr (Some 0) 0),
         Destroy (Ptr (Some 0) 1)]"
    using relocation_dispatch[where s = with_copy_state and this = 0 and T = "WithCopyT False" and args = "Args 7" and it = "Ptr (Some 1) 2"
        and s' = "snd (EmplaceBack (WithCopyT False) 0 (Args 7) with_copy_state)"] full r_emplaceback_c
    by (simp add: ev)
  have f_emplace_c: "fst (Emplace (WithCopyT False) 0 (Ptr (Some 0) 1) (Args 7) with_copy_state) = Inr (Ptr (Some 1) 1)" by code_simp
  then have r_emplace_c: "Emplace (WithCopyT False) 0 (Ptr (Some 0) 1) (Args 7) with_copy_state = (Inr (Ptr (Some 1) 1), snd (Emplace (WithCopyT False) 0 (Ptr (Some 0) 1) (Args 7) with_copy_state))"
    by (cases "Emplace (WithCopyT False) 0 (Ptr (Some 0) 1) (Args 7) with_copy_state") simp
  have t_emplace_c: "trace (snd (Emplace (WithCopyT False) 0 (Ptr (Some 0) 1) (Args 7) with_copy_state)) =
        [Construct (Ptr (Some 1) 1),
         CopyConstruct (Ptr (Some 1) 0) (Ptr (Some 0) 0),
         CopyConstruct (Ptr (Some 1) 2) (Ptr (Some 0) 1),
         Destroy (Ptr (Some 0) 0),
         Destroy (Ptr (Some 0) 1)]"
    using relocation_dispatch[where s = with_copy_state and this = 0 and T = "WithCopyT False" and args = "Args 7" and it = "Ptr (Some 1) 1" and pos = "Ptr (Some 0) 1"
        and s' = "snd (Emplace (WithCopyT False) 0 (Ptr (Some 0) 1) (Args 7) with_copy_state)"] full r_emplace_c
    by (simp add: ev)
  have f_insert_c: "fst (Insert (WithCopyT False) 0 (Ptr (Some 0) 1) (Lvalue (Ptr (Some 0) 0)) with_copy_state) = Inr (Ptr (Some 1) 1)" by code_simp
  then have r_insert_c: "Insert (WithCopyT False) 0 (Ptr (Some 0) 1) (Lvalue (Ptr (Some 0) 0)) with_copy_state = (Inr (Ptr (Some 1) 1), snd (Insert (WithCopyT False) 0 (Ptr (Some 0) 1) (Lvalue (Ptr (Some 0) 0)) with_copy_state))"
    by (cases "Insert (WithCopyT False) 0 (Ptr (Some 0) 1) (Lvalue (Ptr (Some 0) 0)) with_copy_state") simp
  have t_insert_c: "trace (snd (Insert (WithCopyT False) 0 (Ptr (Some 0) 1) (Lvalue (Ptr (Some 0) 0)) with_copy_state)) =
        [CopyConstruct (Ptr (Some 1) 1) (Ptr (Some 0) 0),
         CopyConstruct (Ptr (Some 1) 0) (Ptr (Some 0) 0),
         CopyConstruct (Ptr (Some 1) 2) (Ptr (Some 0) 1),
         Destroy (Ptr (Some 0) 0),
         Destroy (Ptr (Some 0) 1)]"
    using relocation_dispatch[where s = with_copy_state and this = 0 and T = "WithCopyT False" and args = "Lvalue (Ptr (Some 0) 0)" and it = "Ptr (Some 1) 1" and pos = "Ptr (Some 0) 1"
        and s' = "snd (Insert (WithCopyT False) 0 (Ptr (Some 0) 1) (Lvalue (Ptr (Some 0) 0)) with_copy_state)"] full r_insert_c
    by (simp add: ev)
  from capc capr full f_reserve_m t_reserve_m f_resize_m t_resize_m f_push_m t_push_m f_emplaceback_m t_emplaceback_m f_emplace_m t_emplace_m f_insert_m t_insert_m f_reserve_c t_reserve_c f_resize_c t_resize_c f_push_c t_push_c f_emplaceback_c t_emplaceback_c f_emplace_c t_emplace_c f_insert_c t_insert_c
  show ?thesis by simp
qed

section \<open>Growth\<close>



section \<open>Inserting an element of the vector into the vector\<close>

text \<open>
  C4. Let the vector be well formed, full and hold \<open>xs\<close>, let the byte size of the doubled
  block fit \<^verbatim>\<open>size_t\<close>, and let the argument of \<^verbatim>\<open>Insert\<close>/\<^verbatim>\<open>Emplace\<close> at offset \<open>p\<close>, of
  \<^verbatim>\<open>EmplaceBack\<close> or of \<^verbatim>\<open>PushBack\<close> be a reference, lvalue or rvalue, to the element \<open>j\<close> of
  the vector itself. Then the call never runs into undefined behaviour or an assertion: it
  fails by an exception or succeeds, and it does succeed when no operation of the element
  type throws and the allocator has the bytes of the new block. When it succeeds, the new
  element has the value \<open>xs ! j\<close> the referenced element had before the call, the other
  elements are the old ones in their order, and element \<open>j\<close>, now relocated, is unchanged
  for an lvalue and is what the move left of it for an rvalue. The new element is
  constructed in the new block before any old element is relocated, which is why it reads
  the value \<open>xs ! j\<close>.
\<close>

theorem self_insert_safe:
  assumes r: "repr this s xs" and ok: "store_ok s" and vs: "value_semantics T"
    and full: "Capacity this s = Size this s"
    and j: "j < length xs"
    and a: "args = Lvalue (ptr_add (Vector_begin this s) (int j))
          \<or> args = Rvalue (ptr_add (Vector_begin this s) (int j))"
    and p: "p \<le> length xs" and pos: "pos = ptr_add (Vector_begin this s) (int p)"
    and fit: "fits T (2 * Capacity this s)"
  shows "(Insert T this pos args s = (res, s') \<or> Emplace T this pos args s = (res, s') \<longrightarrow>
            (case res of
               Inl e \<Rightarrow> is_thrown e
             | Inr it \<Rightarrow>
                 (\<exists>y. repr this s' (take p (xs[j := y]) @ xs ! j # drop p (xs[j := y]))
                      \<and> (args = Lvalue (ptr_add (Vector_begin this s) (int j)) \<longrightarrow> y = xs ! j))
                 \<and> it = ptr_add (Vector_begin this s') (int p)))
       \<and> (EmplaceBack T this args s = (res, s') \<longrightarrow>
            (case res of
               Inl e \<Rightarrow> is_thrown e
             | Inr it \<Rightarrow>
                 (\<exists>y. repr this s' (xs[j := y] @ [xs ! j])
                      \<and> (args = Lvalue (ptr_add (Vector_begin this s) (int j)) \<longrightarrow> y = xs ! j))
                 \<and> it = ptr_add (Vector_begin this s') (int (length xs))))
       \<and> (PushBack T this args s = (resu, s') \<longrightarrow>
            (case resu of
               Inl e \<Rightarrow> is_thrown e
             | Inr u \<Rightarrow>
                 (\<exists>y. repr this s' (xs[j := y] @ [xs ! j])
                      \<and> (args = Lvalue (ptr_add (Vector_begin this s) (int j)) \<longrightarrow> y = xs ! j))))
       \<and> (nothrow T \<and> \<not> alloc_limit s < block_bytes T (2 * Capacity this s) \<longrightarrow>
            (\<exists>it1 s1. Insert T this pos args s = (Inr it1, s1) \<and> Emplace T this pos args s = (Inr it1, s1))
            \<and> (\<exists>it1 s1. EmplaceBack T this args s = (Inr it1, s1))
            \<and> (\<exists>s1. PushBack T this args s = (Inr (), s1)))"
proof -
  let ?b = "buffer (data (vectors s this))"
  let ?q = "ptr_add ?b (int j)"
  have full': "capacity (data (vectors s this)) = size_field (vectors s this)"
    using full by (simp add: Capacity_def Size_def)
  have n: "size_field (vectors s this) = length xs" using r by (rule repr_size)
  have b: "Vector_begin this s = ?b" by (simp add: Vector_begin_def GetAddress_def)
  have a': "args = Lvalue ?q \<or> args = Rvalue ?q" using a unfolding b .
  have hq: "heap s ?q = Some (Live (xs ! j))" using repr_live[OF r j] .
  have src: "\<forall>q\<in>init_src args. live s q" using a' hq by (auto simp: live_def)
  have isrc: "init_src args = {?q}" using a' by auto
  have m: "(if size_field (vectors s this) = 0 then 1 else size_field (vectors s this) * 2)
           = 2 * Capacity this s"
    using full' n j by (cases xs) (simp_all add: Capacity_def)
  have fit': "fits T (if size_field (vectors s this) = 0 then 1 else size_field (vectors s this) * 2)"
    using fit unfolding m .
  have succeeds: "\<exists>it1 s1. Emplace T this (ptr_add ?b (int p1)) args s = (Inr it1, s1)"
    if "nothrow T" "\<not> alloc_limit s < block_bytes T (2 * Capacity this s)" "p1 \<le> length xs" for p1
    using Emplace_growth_succeeds[OF full' r ok vs _ _ src fit' that(1), of "ptr_add ?b (int p1)"]
      that(2,3) n
    unfolding m by (simp add: ptr_le_def)
  have gen: "(case res1 of
               Inl e \<Rightarrow> is_thrown e
             | Inr it \<Rightarrow>
                 (\<exists>y. repr this s1 (take p1 (xs[j := y]) @ xs ! j # drop p1 (xs[j := y]))
                      \<and> (args = Lvalue ?q \<longrightarrow> y = xs ! j))
                 \<and> it = ptr_add (buffer (data (vectors s1 this))) (int p1))"
    if run: "Emplace T this (ptr_add ?b (int p1)) args s = (res1, s1)" and p1: "p1 \<le> length xs"
    for res1 s1 p1
  proof (cases res1)
    case (Inl e)
    have le1: "ptr_le ?b (ptr_add ?b (int p1))" by (simp add: ptr_le_def)
    have le2: "ptr_le (ptr_add ?b (int p1)) (ptr_add ?b (int (size_field (vectors s this))))"
      using p1 n by (simp add: ptr_le_def)
    have "is_thrown e"
      by (rule Emplace_growth_defined[OF run[unfolded Inl] full' r ok vs _ _ src fit'])
         (use le1 le2 in \<open>simp_all add: Vector_begin_def Vector_end_def GetAddress_def\<close>)
    then show ?thesis using Inl by simp
  next
    case (Inr it)
    have d: "distance ?b (ptr_add ?b (int p1)) = p1" by (simp add: distance_def)
    from Emplace_growth_repr[OF run[unfolded Inr] full' r ok vs fit', unfolded d] obtain x ys where
      rp: "repr this s1 (take p1 ys @ x # drop p1 ys)" and ly: "length ys = length xs"
      and same: "\<forall>i<length xs. ptr_add ?b (int i) \<notin> rvalue_src args \<longrightarrow> ys ! i = xs ! i"
      and sx: "\<forall>q\<in>init_src args. heap s q = Some (Live x)"
      and it: "it = ptr_add (buffer (data (vectors s1 this))) (int p1)"
      by blast
    have x: "x = xs ! j" using sx hq isrc by simp
    have other: "ys ! i = xs ! i" if "i < length xs" "i \<noteq> j" for i
    proof -
      have "ptr_add ?b (int i) \<notin> rvalue_src args"
        using a' that(2) by (auto simp: ptr_add_eq_iff)
      with same that(1) show ?thesis by blast
    qed
    have ys: "ys = xs[j := ys ! j]"
    proof (rule nth_equalityI)
      show "length ys = length (xs[j := ys ! j])" using ly by simp
      fix i assume "i < length ys"
      then have i: "i < length xs" using ly by simp
      show "ys ! i = xs[j := ys ! j] ! i"
        using other[OF i] i by (cases "i = j") simp_all
    qed
    have lv: "ys ! j = xs ! j" if "args = Lvalue ?q"
      using same j that by simp
    have "repr this s1 (take p1 (xs[j := ys ! j]) @ xs ! j # drop p1 (xs[j := ys ! j]))"
      using rp x ys by simp
    with lv it Inr show ?thesis by auto
  qed
  have e: "Vector_end this s = ptr_add ?b (int (length xs))"
    using n by (simp add: Vector_end_def GetAddress_def)
  show ?thesis
  proof (intro conjI impI)
    assume "Insert T this pos args s = (res, s') \<or> Emplace T this pos args s = (res, s')"
    then have "Emplace T this (ptr_add ?b (int p)) args s = (res, s')"
      using pos b by (auto simp: Insert_def)
    from gen[OF this p] show "case res of
               Inl e \<Rightarrow> is_thrown e
             | Inr it \<Rightarrow>
                 (\<exists>y. repr this s' (take p (xs[j := y]) @ xs ! j # drop p (xs[j := y]))
                      \<and> (args = Lvalue (ptr_add (Vector_begin this s) (int j)) \<longrightarrow> y = xs ! j))
                 \<and> it = ptr_add (Vector_begin this s') (int p)"
      unfolding b by (simp add: Vector_begin_def GetAddress_def split: sum.splits)
  next
    assume "EmplaceBack T this args s = (res, s')"
    then have "Emplace T this (ptr_add ?b (int (length xs))) args s = (res, s')"
      unfolding EmplaceBack_full[OF full'] e .
    from gen[OF this order_refl] show "case res of
               Inl e \<Rightarrow> is_thrown e
             | Inr it \<Rightarrow>
                 (\<exists>y. repr this s' (xs[j := y] @ [xs ! j])
                      \<and> (args = Lvalue (ptr_add (Vector_begin this s) (int j)) \<longrightarrow> y = xs ! j))
                 \<and> it = ptr_add (Vector_begin this s') (int (length xs))"
      unfolding b by (simp add: Vector_begin_def GetAddress_def split: sum.splits)
  next
    assume pb: "PushBack T this args s = (resu, s')"
    obtain res1 s1 where run: "Emplace T this (ptr_add ?b (int (length xs))) args s = (res1, s1)"
      by (cases "Emplace T this (ptr_add ?b (int (length xs))) args s")
    from pb have s1: "s1 = s'" and res: "resu = (case res1 of Inl e \<Rightarrow> Inl e | Inr it \<Rightarrow> Inr ())"
      unfolding PushBack_full[OF full'] e run by (auto split: sum.splits)
    from gen[OF run order_refl] show "case resu of
               Inl e \<Rightarrow> is_thrown e
             | Inr u \<Rightarrow>
                 (\<exists>y. repr this s' (xs[j := y] @ [xs ! j])
                      \<and> (args = Lvalue (ptr_add (Vector_begin this s) (int j)) \<longrightarrow> y = xs ! j))"
      unfolding b s1 res by (simp split: sum.splits)
  next
    assume s: "nothrow T \<and> \<not> alloc_limit s < block_bytes T (2 * Capacity this s)"
    from succeeds[of p] s p show "\<exists>it1 s1. Insert T this pos args s = (Inr it1, s1)
        \<and> Emplace T this pos args s = (Inr it1, s1)"
      unfolding pos b by (simp add: Insert_def)
    from succeeds[of "length xs"] s
    obtain it1 s1 where e1: "Emplace T this (Vector_end this s) args s = (Inr it1, s1)"
      unfolding e by auto
    show "\<exists>it1 s1. EmplaceBack T this args s = (Inr it1, s1)"
      unfolding EmplaceBack_full[OF full'] using e1 by blast
    show "\<exists>s1. PushBack T this args s = (Inr (), s1)"
      unfolding PushBack_full[OF full'] using e1 by simp
  qed
qed

theorem self_insert_safe_witness:
  "repr 1 two_vectors [3] \<and> repr 0 two_vectors [1, 2] \<and> store_ok two_vectors
   \<and> value_semantics IntT \<and> nothrow IntT
   \<and> Capacity 1 two_vectors = Size 1 two_vectors \<and> Capacity 0 two_vectors = Size 0 two_vectors
   \<and> fits IntT (2 * Capacity 1 two_vectors) \<and> fits IntT (2 * Capacity 0 two_vectors)
   \<and> \<not> alloc_limit two_vectors < block_bytes IntT (2 * Capacity 1 two_vectors)
   \<and> \<not> alloc_limit two_vectors < block_bytes IntT (2 * Capacity 0 two_vectors)
   \<and> ptr_add (Vector_begin 1 two_vectors) (int 0) = Ptr (Some 1) 0
   \<and> ptr_add (Vector_begin 0 two_vectors) (int 0) = Ptr (Some 0) 0
   \<and> ptr_add (Vector_begin 0 two_vectors) (int 1) = Ptr (Some 0) 1
   \<and> (\<exists>it1 s1. EmplaceBack IntT 1 (Lvalue (Ptr (Some 1) 0)) two_vectors = (Inr it1, s1)
          \<and> repr 1 s1 [3, 3] \<and> it1 = ptr_add (Vector_begin 1 s1) (int 1))
   \<and> (\<exists>it1 s1. EmplaceBack IntT 1 (Rvalue (Ptr (Some 1) 0)) two_vectors = (Inr it1, s1)
          \<and> (\<exists>y. repr 1 s1 [y, 3]))
   \<and> (\<exists>it1 s1. Emplace IntT 0 (Ptr (Some 0) 1) (Lvalue (Ptr (Some 0) 0)) two_vectors = (Inr it1, s1)
          \<and> repr 0 s1 [1, 1, 2] \<and> it1 = ptr_add (Vector_begin 0 s1) (int 1))
   \<and> (\<exists>it1 s1. Insert IntT 0 (Ptr (Some 0) 1) (Rvalue (Ptr (Some 0) 0)) two_vectors = (Inr it1, s1)
          \<and> (\<exists>y. repr 0 s1 [y, 1, 2]))
   \<and> (\<exists>s1. PushBack IntT 0 (Lvalue (Ptr (Some 0) 0)) two_vectors = (Inr (), s1)
          \<and> repr 0 s1 [1, 2, 1])
   \<and> (\<exists>s1. PushBack IntT 0 (Rvalue (Ptr (Some 0) 0)) two_vectors = (Inr (), s1)
          \<and> (\<exists>y. repr 0 s1 [y, 2, 1]))
   \<and> fst (EmplaceBack IntT 1 (Lvalue (Ptr (Some 1) 0)) two_vectors) = Inr (Ptr (Some 2) 1)
   \<and> fst (Emplace IntT 0 (Ptr (Some 0) 1) (Lvalue (Ptr (Some 0) 0)) two_vectors) = Inr (Ptr (Some 2) 1)"
proof -
  have full1: "Capacity 1 two_vectors = Size 1 two_vectors"
    and full0: "Capacity 0 two_vectors = Size 0 two_vectors"
    by (simp_all add: Capacity_def Size_def two_vectors_def)
  have fit1: "fits IntT (2 * Capacity 1 two_vectors)" and fit0: "fits IntT (2 * Capacity 0 two_vectors)"
    by (simp_all add: fits_def IntT_def Capacity_def two_vectors_def)
  have mem1: "\<not> alloc_limit two_vectors < block_bytes IntT (2 * Capacity 1 two_vectors)"
    and mem0: "\<not> alloc_limit two_vectors < block_bytes IntT (2 * Capacity 0 two_vectors)"
    by (simp_all add: block_bytes_def IntT_def Capacity_def two_vectors_def)
  have q1: "ptr_add (Vector_begin 1 two_vectors) (int 0) = Ptr (Some 1) 0"
    and q0: "ptr_add (Vector_begin 0 two_vectors) (int 0) = Ptr (Some 0) 0"
    and p01: "ptr_add (Vector_begin 0 two_vectors) (int 1) = Ptr (Some 0) 1"
    by (simp_all add: Vector_begin_def GetAddress_def two_vectors_def ptr_add_def)
  have e1: "ptr_add (Vector_begin 1 two_vectors) (int (length [3::int])) = Ptr (Some 1) 1"
    and e0: "ptr_add (Vector_begin 0 two_vectors) (int (length [1, 2::int])) = Ptr (Some 0) 2"
    by (simp_all add: Vector_begin_def GetAddress_def two_vectors_def ptr_add_def)
  have j1: "0 < length [3 :: int]" and j0: "0 < length [1, 2 :: int]" by simp_all
  have l1: "length [3 :: int] \<le> length [3 :: int]" and l0: "length [1, 2 :: int] \<le> length [1, 2 :: int]"
    and l01: "1 \<le> length [1, 2 :: int]" by simp_all
  have aL1: "Lvalue (Ptr (Some 1) 0) = Lvalue (ptr_add (Vector_begin 1 two_vectors) (int 0))
          \<or> (Lvalue (Ptr (Some 1) 0) :: int init) = Rvalue (ptr_add (Vector_begin 1 two_vectors) (int 0))"
    and aR1: "(Rvalue (Ptr (Some 1) 0) :: int init) = Lvalue (ptr_add (Vector_begin 1 two_vectors) (int 0))
          \<or> Rvalue (Ptr (Some 1) 0) = Rvalue (ptr_add (Vector_begin 1 two_vectors) (int 0))"
    using q1 by simp_all
  have aL0: "Lvalue (Ptr (Some 0) 0) = Lvalue (ptr_add (Vector_begin 0 two_vectors) (int 0))
          \<or> (Lvalue (Ptr (Some 0) 0) :: int init) = Rvalue (ptr_add (Vector_begin 0 two_vectors) (int 0))"
    and aR0: "(Rvalue (Ptr (Some 0) 0) :: int init) = Lvalue (ptr_add (Vector_begin 0 two_vectors) (int 0))
          \<or> Rvalue (Ptr (Some 0) 0) = Rvalue (ptr_add (Vector_begin 0 two_vectors) (int 0))"
    using q0 by simp_all
  note tL1 = self_insert_safe[OF repr_two_vectors_1 store_ok_two_vectors value_semantics_IntT full1 j1 aL1 l1
      e1[symmetric] fit1]
  note tR1 = self_insert_safe[OF repr_two_vectors_1 store_ok_two_vectors value_semantics_IntT full1 j1 aR1 l1
      e1[symmetric] fit1]
  note tL0 = self_insert_safe[OF repr_two_vectors store_ok_two_vectors value_semantics_IntT full0 j0 aL0 l01
      p01[symmetric] fit0]
  note tR0 = self_insert_safe[OF repr_two_vectors store_ok_two_vectors value_semantics_IntT full0 j0 aR0 l01
      p01[symmetric] fit0]
  note uL0 = self_insert_safe[OF repr_two_vectors store_ok_two_vectors value_semantics_IntT full0 j0 aL0 l0
      e0[symmetric] fit0]
  note uR0 = self_insert_safe[OF repr_two_vectors store_ok_two_vectors value_semantics_IntT full0 j0 aR0 l0
      e0[symmetric] fit0]
  have w1: "\<exists>it1 s1. EmplaceBack IntT 1 (Lvalue (Ptr (Some 1) 0)) two_vectors = (Inr it1, s1)
          \<and> repr 1 s1 [3, 3] \<and> it1 = ptr_add (Vector_begin 1 s1) (int 1)"
  proof -
    from tL1[THEN conjunct2, THEN conjunct2, THEN conjunct2, rule_format, OF conjI[OF nothrow_IntT mem1], THEN conjunct2, THEN conjunct1]
    obtain it1 s1 where run: "EmplaceBack IntT 1 (Lvalue (Ptr (Some 1) 0)) two_vectors = (Inr it1, s1)"
      by blast
    from tL1[where res = "Inr it1" and s' = s1, THEN conjunct2, THEN conjunct1, rule_format, OF run] q1
    have "repr 1 s1 [3, 3] \<and> it1 = ptr_add (Vector_begin 1 s1) (int 1)" by simp
    with run show ?thesis by blast
  qed
  have w2: "\<exists>it1 s1. EmplaceBack IntT 1 (Rvalue (Ptr (Some 1) 0)) two_vectors = (Inr it1, s1)
          \<and> (\<exists>y. repr 1 s1 [y, 3])"
  proof -
    from tR1[THEN conjunct2, THEN conjunct2, THEN conjunct2, rule_format, OF conjI[OF nothrow_IntT mem1], THEN conjunct2, THEN conjunct1]
    obtain it1 s1 where run: "EmplaceBack IntT 1 (Rvalue (Ptr (Some 1) 0)) two_vectors = (Inr it1, s1)"
      by blast
    from tR1[where res = "Inr it1" and s' = s1, THEN conjunct2, THEN conjunct1, rule_format, OF run] q1
    have "\<exists>y. repr 1 s1 [y, 3]" by simp
    with run show ?thesis by blast
  qed
  have w3: "\<exists>it1 s1. Emplace IntT 0 (Ptr (Some 0) 1) (Lvalue (Ptr (Some 0) 0)) two_vectors = (Inr it1, s1)
          \<and> repr 0 s1 [1, 1, 2] \<and> it1 = ptr_add (Vector_begin 0 s1) (int 1)"
  proof -
    from tL0[THEN conjunct2, THEN conjunct2, THEN conjunct2, rule_format, OF conjI[OF nothrow_IntT mem0], THEN conjunct1]
    obtain it1 s1 where run: "Emplace IntT 0 (Ptr (Some 0) 1) (Lvalue (Ptr (Some 0) 0)) two_vectors = (Inr it1, s1)"
      by blast
    from tL0[where res = "Inr it1" and s' = s1, THEN conjunct1, rule_format, OF disjI2[OF run]] q0
    have "repr 0 s1 [1, 1, 2] \<and> it1 = ptr_add (Vector_begin 0 s1) (int 1)" by simp
    with run show ?thesis by blast
  qed
  have w4: "\<exists>it1 s1. Insert IntT 0 (Ptr (Some 0) 1) (Rvalue (Ptr (Some 0) 0)) two_vectors = (Inr it1, s1)
          \<and> (\<exists>y. repr 0 s1 [y, 1, 2])"
  proof -
    from tR0[THEN conjunct2, THEN conjunct2, THEN conjunct2, rule_format, OF conjI[OF nothrow_IntT mem0], THEN conjunct1]
    obtain it1 s1 where run: "Insert IntT 0 (Ptr (Some 0) 1) (Rvalue (Ptr (Some 0) 0)) two_vectors = (Inr it1, s1)"
      by blast
    from tR0[where res = "Inr it1" and s' = s1, THEN conjunct1, rule_format, OF disjI1[OF run]] q0
    have "\<exists>y. repr 0 s1 [y, 1, 2]" by simp
    with run show ?thesis by blast
  qed
  have w5: "\<exists>s1. PushBack IntT 0 (Lvalue (Ptr (Some 0) 0)) two_vectors = (Inr (), s1)
          \<and> repr 0 s1 [1, 2, 1]"
  proof -
    from uL0[THEN conjunct2, THEN conjunct2, THEN conjunct2, rule_format, OF conjI[OF nothrow_IntT mem0], THEN conjunct2, THEN conjunct2]
    obtain s1 where run: "PushBack IntT 0 (Lvalue (Ptr (Some 0) 0)) two_vectors = (Inr (), s1)"
      by blast
    from uL0[where resu = "Inr ()" and s' = s1, THEN conjunct2, THEN conjunct2, THEN conjunct1, rule_format, OF run] q0
    have "repr 0 s1 [1, 2, 1]" by simp
    with run show ?thesis by blast
  qed
  have w6: "\<exists>s1. PushBack IntT 0 (Rvalue (Ptr (Some 0) 0)) two_vectors = (Inr (), s1)
          \<and> (\<exists>y. repr 0 s1 [y, 2, 1])"
  proof -
    from uR0[THEN conjunct2, THEN conjunct2, THEN conjunct2, rule_format, OF conjI[OF nothrow_IntT mem0], THEN conjunct2, THEN conjunct2]
    obtain s1 where run: "PushBack IntT 0 (Rvalue (Ptr (Some 0) 0)) two_vectors = (Inr (), s1)"
      by blast
    from uR0[where resu = "Inr ()" and s' = s1, THEN conjunct2, THEN conjunct2, THEN conjunct1, rule_format, OF run] q0
    have "\<exists>y. repr 0 s1 [y, 2, 1]" by simp
    with run show ?thesis by blast
  qed
  have f1: "fst (EmplaceBack IntT 1 (Lvalue (Ptr (Some 1) 0)) two_vectors) = Inr (Ptr (Some 2) 1)"
    by code_simp
  have f2: "fst (Emplace IntT 0 (Ptr (Some 0) 1) (Lvalue (Ptr (Some 0) 0)) two_vectors) = Inr (Ptr (Some 2) 1)"
    by code_simp
  from repr_two_vectors_1 repr_two_vectors store_ok_two_vectors value_semantics_IntT nothrow_IntT
    full1 full0 fit1 fit0 mem1 mem0 q1 q0 p01 w1 w2 w3 w4 w5 w6 f1 f2
  show ?thesis by (intro conjI)
qed

end
